theory Spec2Isabelle
  imports Complex_Main "HOL-Library.Log_Nat" "HOL-Library.Multiset"
begin

section \<open>Data model of \<open>invoice_service.py\<close>\<close>

text \<open>
  The two dataclasses become records. A Python \<open>str\<close> is a list of characters, read
  as code points below 256; \<open>Optional[str]\<close> is an option. \<open>qty\<close> is an unbounded
  Python integer.

  A finite Python \<open>float\<close> is a dyadic rational, so float values are carried by
  \<open>rat\<close>. Every float operation of the source is the exact operation followed
  by a rounding function \<open>R\<close>, which all arithmetic definitions take as their first
  argument: \<open>binary64\<close> below is the rounding of CPython's doubles, the identity
  gives exact arithmetic. Infinities, NaN and the exponent limits of the double format are not
  represented: the model covers finite values whose results stay in range. The integer
  constants of the source (thresholds, fees, the flat \<open>20\<close>, \<open>5.0\<close>, \<open>0.0\<close>)
  are doubles as they stand and are written without rounding; a decimal constant such as
  \<open>0.07\<close> is the rounding of \<open>7 / 100\<close>.
\<close>

record LineItem =
  sku :: string
  category :: string
  unit_price :: rat
  qty :: int
  fragile :: bool

record Invoice =
  invoice_id :: string
  customer_id :: string
  country :: string
  membership :: string
  coupon :: "string option"
  items :: "LineItem list"

datatype error = ValueError string | KeyError string | AttributeError string

subsection \<open>Float arithmetic\<close>

definition fadd :: "(rat \<Rightarrow> rat) \<Rightarrow> rat \<Rightarrow> rat \<Rightarrow> rat" where
  "fadd R x y = R (x + y)"

definition fsub :: "(rat \<Rightarrow> rat) \<Rightarrow> rat \<Rightarrow> rat \<Rightarrow> rat" where
  "fsub R x y = R (x - y)"

definition fmul :: "(rat \<Rightarrow> rat) \<Rightarrow> rat \<Rightarrow> rat \<Rightarrow> rat" where
  "fmul R x y = R (x * y)"

text \<open>\<open>float(n)\<close> for a Python integer, as done implicitly by \<open>float * int\<close>.\<close>

definition int_to_float :: "(rat \<Rightarrow> rat) \<Rightarrow> int \<Rightarrow> rat" where
  "int_to_float R n = R (of_int n)"

text \<open>The exact arithmetic of the specification: no rounding.\<close>

definition exact :: "rat \<Rightarrow> rat" where
  "exact x = x"

text \<open>
  Rounding to the nearest number with a 53-bit significand, ties to the even significand:
  \<open>ilog2 q\<close> is the exponent of the leading bit of a positive rational.
\<close>

definition ilog2 :: "rat \<Rightarrow> int" where
  "ilog2 q =
     (let (a, b) = quotient_of q; k = bitlen a - bitlen b
      in if 2 powi k \<le> q then k else k - 1)"

definition round_half_even :: "rat \<Rightarrow> int" where
  "round_half_even x =
     (let f = \<lfloor>x\<rfloor>; d = x - of_int f
      in if d < 1 / 2 then f
         else if 1 / 2 < d then f + 1
         else if even f then f else f + 1)"

definition binary64 :: "rat \<Rightarrow> rat" where
  "binary64 x =
     (if x = 0 then 0
      else let e = ilog2 \<bar>x\<bar> - 52
           in of_int (round_half_even (x / 2 powi e)) * 2 powi e)"

subsection \<open>Strings\<close>

text \<open>\<open>sep.join(xs)\<close>\<close>

fun join :: "string \<Rightarrow> string list \<Rightarrow> string" where
  "join sep [] = []"
| "join sep [x] = x"
| "join sep (x # y # ys) = x @ sep @ join sep (y # ys)"

text \<open>\<open>str.isspace\<close> on one code point below 256, and \<open>str.strip()\<close>.\<close>

definition isspace :: "char \<Rightarrow> bool" where
  "isspace c = (of_char c \<in> {9, 10, 11, 12, 13, 28, 29, 30, 31, 32, 133, 160 :: nat})"

definition strip :: "string \<Rightarrow> string" where
  "strip s = rev (dropWhile isspace (rev (dropWhile isspace s)))"

section \<open>The service\<close>

subsection \<open>Configuration tables\<close>

definition VALID_CATEGORIES :: "string set" where
  "VALID_CATEGORIES = {''book'', ''food'', ''electronics'', ''other''}"

definition SHIPPING_RULES :: "string \<rightharpoonup> (rat \<times> rat) list" where
  "SHIPPING_RULES = map_of
     [(''TH'', [(500, 60)]),
      (''JP'', [(4000, 600)]),
      (''US'', [(100, 15), (300, 8)]),
      (''OTHER'', [(200, 25)])]"

definition TAX_RATE :: "(rat \<Rightarrow> rat) \<Rightarrow> string \<rightharpoonup> rat" where
  "TAX_RATE R = map_of
     [(''TH'', R (7 / 100)),
      (''JP'', R (10 / 100)),
      (''US'', R (8 / 100)),
      (''OTHER'', R (5 / 100))]"

definition MEMBERSHIP_DISCOUNT :: "(rat \<Rightarrow> rat) \<Rightarrow> string \<rightharpoonup> rat" where
  "MEMBERSHIP_DISCOUNT R = map_of
     [(''gold'', R (3 / 100)),
      (''platinum'', R (5 / 100))]"

text \<open>The table \<open>self._coupon_rate\<close> that \<open>__init__\<close> builds.\<close>

definition coupon_rate :: "(rat \<Rightarrow> rat) \<Rightarrow> string \<rightharpoonup> rat" where
  "coupon_rate R = map_of
     [(''WELCOME10'', R (10 / 100)),
      (''VIP20'', R (20 / 100)),
      (''STUDENT5'', R (5 / 100))]"

subsection \<open>Validation\<close>

text \<open>The list \<open>problems\<close> is mutated in place by the source; here it is passed and returned.\<close>

definition validate_item :: "LineItem \<Rightarrow> string list \<Rightarrow> string list" where
  "validate_item it problems =
     (let problems = (if sku it = [] then problems @ [''Item sku is missing''] else problems);
          problems = (if qty it \<le> 0 then problems @ [''Invalid qty for '' @ sku it] else problems);
          problems = (if unit_price it < 0 then problems @ [''Invalid price for '' @ sku it]
                      else problems);
          problems = (if category it \<notin> VALID_CATEGORIES
                      then problems @ [''Unknown category for '' @ sku it] else problems)
      in problems)"

text \<open>The loop \<open>for it in inv.items: self._validate_item(it, problems)\<close>.\<close>

fun validate_loop :: "LineItem list \<Rightarrow> string list \<Rightarrow> string list" where
  "validate_loop [] problems = problems"
| "validate_loop (it # its) problems = validate_loop its (validate_item it problems)"

definition validate :: "Invoice option \<Rightarrow> string list" where
  "validate inv_opt =
     (case inv_opt of
        None \<Rightarrow> [''Invoice is missing'']
      | Some invoice \<Rightarrow>
          (let problems = [];
               problems = (if invoice_id invoice = [] then problems @ [''Missing invoice_id'']
                           else problems);
               problems = (if customer_id invoice = [] then problems @ [''Missing customer_id'']
                           else problems);
               problems = (if items invoice = [] then problems @ [''Invoice must contain items'']
                           else problems)
           in validate_loop (items invoice) problems))"

subsection \<open>Calculation helpers\<close>

fun subtotal_loop :: "(rat \<Rightarrow> rat) \<Rightarrow> LineItem list \<Rightarrow> rat \<times> rat \<Rightarrow> rat \<times> rat" where
  "subtotal_loop R [] (subtotal, fragile_fee) = (subtotal, fragile_fee)"
| "subtotal_loop R (it # its) (subtotal, fragile_fee) =
     (let subtotal = fadd R subtotal (fmul R (unit_price it) (int_to_float R (qty it)));
          fragile_fee = (if fragile it then fadd R fragile_fee (fmul R 5 (int_to_float R (qty it)))
                         else fragile_fee)
      in subtotal_loop R its (subtotal, fragile_fee))"

definition calculate_subtotal :: "(rat \<Rightarrow> rat) \<Rightarrow> LineItem list \<Rightarrow> rat \<times> rat" where
  "calculate_subtotal R its = subtotal_loop R its (0, 0)"

text \<open>The loop \<open>for limit, fee in rules\<close> with its early return, and the final \<open>return 0.0\<close>.\<close>

fun shipping_loop :: "(rat \<times> rat) list \<Rightarrow> rat \<Rightarrow> rat" where
  "shipping_loop [] subtotal = 0"
| "shipping_loop ((limit, fee) # rules) subtotal =
     (if subtotal < limit then fee else shipping_loop rules subtotal)"

text \<open>
  \<open>d.get(k, d["OTHER"])\<close>: the default is evaluated first and raises \<open>KeyError\<close> when
  the table has no entry \<open>"OTHER"\<close>.
\<close>

definition get_or_other :: "(string \<rightharpoonup> 'a) \<Rightarrow> string \<Rightarrow> error + 'a" where
  "get_or_other d k =
     (case d ''OTHER'' of
        None \<Rightarrow> Inl (KeyError ''OTHER'')
      | Some dflt \<Rightarrow> Inr (case d k of Some v \<Rightarrow> v | None \<Rightarrow> dflt))"

definition calculate_shipping :: "string \<Rightarrow> rat \<Rightarrow> error + rat" where
  "calculate_shipping cntry subtotal =
     (case get_or_other SHIPPING_RULES cntry of
        Inl e \<Rightarrow> Inl e
      | Inr rules \<Rightarrow> Inr (shipping_loop rules subtotal))"

definition calculate_discount ::
  "(rat \<Rightarrow> rat) \<Rightarrow> Invoice \<Rightarrow> rat \<Rightarrow> string list \<Rightarrow> rat \<times> string list" where
  "calculate_discount R invoice subtotal warnings =
     (let discount = 0;
          discount = (case MEMBERSHIP_DISCOUNT R (membership invoice) of
                        Some rate \<Rightarrow> fadd R discount (fmul R subtotal rate)
                      | None \<Rightarrow> if subtotal > 3000 then fadd R discount 20 else discount)
      in case coupon invoice of
           None \<Rightarrow> (discount, warnings)
         | Some c \<Rightarrow>
             if c = [] then (discount, warnings)
             else (let code = strip c
                   in case coupon_rate R code of
                        Some rate \<Rightarrow> (fadd R discount (fmul R subtotal rate), warnings)
                      | None \<Rightarrow> (discount, warnings @ [''Unknown coupon''])))"

definition calculate_tax :: "(rat \<Rightarrow> rat) \<Rightarrow> string \<Rightarrow> rat \<Rightarrow> error + rat" where
  "calculate_tax R cntry taxable_amount =
     (case get_or_other (TAX_RATE R) cntry of
        Inl e \<Rightarrow> Inl e
      | Inr rate \<Rightarrow> Inr (fmul R taxable_amount rate))"

subsection \<open>Main API\<close>

text \<open>
  \<open>raise ValueError\<close> is the result \<open>Inl (ValueError msg)\<close>. \<open>max(total, 0.0)\<close>
  returns its second argument exactly when that one is greater than the first. Reading
  \<open>inv.items\<close> of a missing invoice would raise \<open>AttributeError\<close>; validation has
  rejected a missing invoice before that line is reached.
\<close>

definition compute_total :: "(rat \<Rightarrow> rat) \<Rightarrow> Invoice option \<Rightarrow> error + rat \<times> string list" where
  "compute_total R inv_opt =
     (let warnings = [];
          problems = validate inv_opt
      in if problems \<noteq> [] then Inl (ValueError (join ''; '' problems))
         else case inv_opt of
           None \<Rightarrow> Inl (AttributeError ''items'')
         | Some invoice \<Rightarrow>
             (let (subtotal, fragile_fee) = calculate_subtotal R (items invoice)
              in case calculate_shipping (country invoice) subtotal of
                   Inl e \<Rightarrow> Inl e
                 | Inr shipping \<Rightarrow>
                     (let (discount, warnings) = calculate_discount R invoice subtotal warnings
                      in case calculate_tax R (country invoice) (fsub R subtotal discount) of
                           Inl e \<Rightarrow> Inl e
                         | Inr tax \<Rightarrow>
                             (let total = fsub R (fadd R (fadd R (fadd R subtotal shipping)
                                                    fragile_fee) tax) discount;
                                  total = (if 0 > total then 0 else total);
                                  warnings =
                                    (if subtotal > 10000
                                        \<and> MEMBERSHIP_DISCOUNT R (membership invoice) = None
                                     then warnings @ [''Consider membership upgrade'']
                                     else warnings)
                              in Inr (total, warnings)))))"

section \<open>Auxiliary definitions\<close>

subsection \<open>Representable numbers and rounding functions\<close>

text \<open>
  The numbers a double holds (exponent range left open): an integer significand below
  \<open>2 ^ 53\<close> in magnitude, scaled by a power of two.
\<close>

definition representable :: "rat \<Rightarrow> bool" where
  "representable z = (\<exists>m e. z = of_int m * 2 powi e \<and> \<bar>m\<bar> < 2 ^ 53)"

text \<open>
  What the proofs below use of a rounding function: it leaves its own results and the
  integers below \<open>2 ^ 53\<close> unchanged, keeps the sign, never rounds a non-negative number
  above a number it leaves unchanged, and leaves the quarter and the sixteenth of such a number
  unchanged.
\<close>

definition float_rounding :: "(rat \<Rightarrow> rat) \<Rightarrow> bool" where
  "float_rounding R =
     ((\<forall>x. R (R x) = R x) \<and>
      (\<forall>n::int. \<bar>n\<bar> < 2 ^ 53 \<longrightarrow> R (of_int n) = of_int n) \<and>
      (\<forall>x. 0 < x \<longrightarrow> 0 < R x) \<and>
      (\<forall>x. x < 0 \<longrightarrow> R x < 0) \<and>
      (\<forall>x y. 0 \<le> x \<and> x \<le> y \<and> R y = y \<longrightarrow> R x \<le> y) \<and>
      (\<forall>y. R y = y \<longrightarrow> R (y / 4) = y / 4 \<and> R (y / 16) = y / 16))"

subsection \<open>The two contributions to the discount\<close>

text \<open>
  The discount rules as the specification words them, to be compared with
  \<open>calculate_discount\<close>: the membership contribution is the tier's share of the subtotal,
  or the flat 20 above 3000 when the membership is no tier; the coupon contribution is the
  coupon's share of the subtotal when a non-empty coupon strips to a known code.
\<close>

definition spec_membership_discount :: "(rat \<Rightarrow> rat) \<Rightarrow> Invoice \<Rightarrow> rat \<Rightarrow> rat" where
  "spec_membership_discount R invoice subtotal =
     (case MEMBERSHIP_DISCOUNT R (membership invoice) of
        Some rate \<Rightarrow> fmul R subtotal rate
      | None \<Rightarrow> if 3000 < subtotal then 20 else 0)"

definition spec_coupon_discount :: "(rat \<Rightarrow> rat) \<Rightarrow> Invoice \<Rightarrow> rat \<Rightarrow> rat" where
  "spec_coupon_discount R invoice subtotal =
     (case coupon invoice of
        None \<Rightarrow> 0
      | Some code \<Rightarrow>
          if code = [] then 0
          else (case coupon_rate R (strip code) of
                  Some rate \<Rightarrow> fmul R subtotal rate
                | None \<Rightarrow> 0))"

subsection \<open>Sample invoices\<close>

text \<open>Scenario C of the specification, with one item carrying the whole subtotal.\<close>

definition scenario_C :: Invoice where
  "scenario_C =
     \<lparr>invoice_id = ''INV-C'', customer_id = ''CUST-1'', country = ''US'',
      membership = ''gold'', coupon = Some ''WELCOME10'',
      items = [\<lparr>sku = ''E1'', category = ''electronics'', unit_price = 4000, qty = 1,
                fragile = False\<rparr>]\<rparr>"


text \<open>An order above 10000 without a tier and with an unknown coupon: both warnings apply.\<close>

definition big_order :: Invoice where
  "big_order =
     \<lparr>invoice_id = ''INV-B'', customer_id = ''CUST-3'', country = ''TH'',
      membership = ''none'', coupon = Some ''BOGUS'',
      items = [\<lparr>sku = ''E9'', category = ''electronics'', unit_price = 6000, qty = 2,
                fragile = True\<rparr>]\<rparr>"

text \<open>An invoice with no identifier and no items.\<close>

definition empty_invoice :: Invoice where
  "empty_invoice =
     \<lparr>invoice_id = [], customer_id = ''CUST-4'', country = ''JP'',
      membership = ''gold'', coupon = None, items = []\<rparr>"

text \<open>Three items priced \<open>0.1\<close>, \<open>0.2\<close> and \<open>0.3\<close>, in two orders.\<close>

definition priced :: "rat \<Rightarrow> LineItem" where
  "priced p = \<lparr>sku = ''F1'', category = ''food'', unit_price = p, qty = 1, fragile = False\<rparr>"

definition items_ascending :: "LineItem list" where
  "items_ascending =
     [priced (binary64 (1 / 10)), priced (binary64 (2 / 10)), priced (binary64 (3 / 10))]"

definition items_descending :: "LineItem list" where
  "items_descending =
     [priced (binary64 (3 / 10)), priced (binary64 (2 / 10)), priced (binary64 (1 / 10))]"

section \<open>Properties of the rounding functions\<close>

lemma bitlen_powi:
  fixes a :: int assumes "0 < a"
  shows "(2::rat) powi (bitlen a - 1) \<le> of_int a" "of_int a < (2::rat) powi (bitlen a)"
proof -
  from bitlen_bounds [OF assms] have lo: "2 ^ nat (bitlen a - 1) \<le> a" and hi: "a < 2 ^ nat (bitlen a)"
    by auto
  have ge1: "1 \<le> bitlen a" using assms by (simp add: bitlen_alt_def)
  have "(of_int (2 ^ nat (bitlen a - 1)) :: rat) \<le> of_int a" using lo by (simp only: of_int_le_iff)
  then show "(2::rat) powi (bitlen a - 1) \<le> of_int a"
    using ge1 by (simp add: power_int_def)
  have "(of_int a :: rat) < of_int (2 ^ nat (bitlen a))" using hi by (simp only: of_int_less_iff)
  then show "of_int a < (2::rat) powi (bitlen a)"
    using ge1 by (simp add: power_int_def)
qed

lemma ilog2_bounds:
  assumes "0 < q"
  shows "2 powi (ilog2 q) \<le> q" "q < 2 powi (ilog2 q + 1)"
proof -
  obtain a b where ab: "quotient_of q = (a, b)" by (cases "quotient_of q")
  have bpos: "0 < b" using ab quotient_of_denom_pos by blast
  have q: "q = of_int a / of_int b" using ab by (rule quotient_of_div)
  have apos: "0 < a" using assms bpos q by (simp add: zero_less_divide_iff)
  define k where "k = bitlen a - bitlen b"
  have il: "ilog2 q = (if 2 powi k \<le> q then k else k - 1)"
    by (simp add: ilog2_def ab k_def Let_def)
  have bq: "(0::rat) < of_int b" using bpos by simp
  have lo: "2 powi (k - 1) \<le> q"
  proof -
    have "(2::rat) powi (k - 1) = 2 powi (bitlen a - 1) / 2 powi (bitlen b)"
      by (simp add: k_def power_int_diff)
    also have "\<dots> \<le> of_int a / 2 powi (bitlen b)"
      using bitlen_powi(1) [OF apos] by (simp add: divide_right_mono)
    also have "\<dots> \<le> of_int a / of_int b"
      using bitlen_powi(2) [OF bpos] apos bq by (simp add: frac_le)
    finally show ?thesis by (simp add: q)
  qed
  have hi: "q < 2 powi (k + 1)"
  proof -
    have "q = of_int a / of_int b" by (rule q)
    also have "\<dots> < 2 powi (bitlen a) / of_int b"
      using bitlen_powi(2) [OF apos] bq by (simp add: divide_strict_right_mono)
    also have "\<dots> \<le> 2 powi (bitlen a) / 2 powi (bitlen b - 1)"
      using bitlen_powi(1) [OF bpos] by (simp add: frac_le)
    also have "\<dots> = 2 powi (k + 1)"
      by (simp add: k_def power_int_diff power_int_add)
    finally show ?thesis .
  qed
  show "2 powi (ilog2 q) \<le> q" using il lo by (auto split: if_splits)
  show "q < 2 powi (ilog2 q + 1)" using il hi by (auto split: if_splits simp: not_le)
qed

lemma powi2_less_cancel:
  assumes "(2::rat) powi a < 2 powi b" shows "a < b"
proof (rule ccontr)
  assume "\<not> a < b"
  then have "b \<le> a" by simp
  then have "(2::rat) powi b \<le> 2 powi a" by (intro power_int_increasing) auto
  with assms show False by simp
qed

lemma ilog2_unique:
  assumes "0 < q" "2 powi n \<le> q" "q < 2 powi (n + 1)"
  shows "ilog2 q = n"
proof -
  have "(2::rat) powi (ilog2 q) < 2 powi (n + 1)"
    using ilog2_bounds(1) [OF assms(1)] assms(3) by simp
  then have a: "ilog2 q < n + 1" by (rule powi2_less_cancel)
  have "(2::rat) powi n < 2 powi (ilog2 q + 1)"
    using ilog2_bounds(2) [OF assms(1)] assms(2) by simp
  then have b: "n < ilog2 q + 1" by (rule powi2_less_cancel)
  from a b show ?thesis by simp
qed

lemma round_half_even_of_int [simp]: "round_half_even (of_int n) = n"
  by (simp add: round_half_even_def)

lemma round_half_even_ge:
  assumes "of_int n \<le> x" shows "n \<le> round_half_even x"
proof -
  have "n \<le> \<lfloor>x\<rfloor>" using assms by (simp add: le_floor_iff)
  then show ?thesis by (simp add: round_half_even_def Let_def)
qed

lemma round_half_even_le:
  assumes "x \<le> of_int n" shows "round_half_even x \<le> n"
proof (cases "x = of_int n")
  case True
  then show ?thesis by simp
next
  case False
  with assms have "x < of_int n" by simp
  then have "\<lfloor>x\<rfloor> < n" by (simp add: floor_less_iff)
  then show ?thesis by (auto simp: round_half_even_def Let_def)
qed

lemma binary64_representable_id:
  assumes "representable z" shows "binary64 z = z"
proof (cases "z = 0")
  case True
  then show ?thesis by (simp add: binary64_def)
next
  case False
  from assms obtain m e where z: "z = of_int m * 2 powi e" and m: "\<bar>m\<bar> < 2 ^ 53"
    by (auto simp: representable_def)
  define n where "n = ilog2 \<bar>z\<bar>"
  have zpos: "0 < \<bar>z\<bar>" using False by simp
  have "\<bar>z\<bar> = of_int \<bar>m\<bar> * 2 powi e" by (simp add: z abs_mult power_int_abs)
  also have "\<dots> < 2 ^ 53 * 2 powi e"
  proof -
    have "(of_int \<bar>m\<bar> :: rat) < of_int (2 ^ 53)" using m by (simp only: of_int_less_iff)
    then show ?thesis by (simp add: mult_strict_right_mono)
  qed
  also have "\<dots> = 2 powi (53 + e)" by (simp add: power_int_add)
  finally have "\<bar>z\<bar> < 2 powi (53 + e)" .
  moreover have "2 powi n \<le> \<bar>z\<bar>" unfolding n_def by (rule ilog2_bounds(1) [OF zpos])
  ultimately have "(2::rat) powi n < 2 powi (53 + e)" by simp
  then have "n < 53 + e" by (rule powi2_less_cancel)
  then have le: "0 \<le> e - (n - 52)" by simp
  have "z / 2 powi (n - 52) = of_int m * 2 powi (e - (n - 52))"
    by (simp add: z power_int_diff)
  also have "\<dots> = of_int (m * 2 ^ nat (e - (n - 52)))"
    using le by (simp add: power_int_def)
  finally have q: "z / 2 powi (n - 52) = of_int (m * 2 ^ nat (e - (n - 52)))" .
  have "binary64 z = of_int (round_half_even (z / 2 powi (n - 52))) * 2 powi (n - 52)"
    using False by (simp add: binary64_def n_def Let_def)
  also have "\<dots> = z / 2 powi (n - 52) * 2 powi (n - 52)"
    by (simp only: q round_half_even_of_int)
  also have "\<dots> = z" by simp
  finally show ?thesis .
qed

lemma binary64_scaled:
  assumes "x \<noteq> 0"
  shows "\<exists>m e. binary64 x = of_int m * 2 powi e \<and> 2 ^ 52 \<le> \<bar>m\<bar> \<and> \<bar>m\<bar> \<le> 2 ^ 53 \<and> (0 < x \<longleftrightarrow> 0 < m)"
proof -
  define e where "e = ilog2 \<bar>x\<bar> - 52"
  define y where "y = x / 2 powi e"
  define m where "m = round_half_even y"
  have xpos: "0 < \<bar>x\<bar>" using assms by simp
  have b: "binary64 x = of_int m * 2 powi e"
    using assms by (simp add: binary64_def e_def y_def m_def Let_def)
  have p: "(0::rat) < 2 powi e" by (simp add: zero_less_power_int)
  have "2 powi (e + 52) \<le> \<bar>x\<bar>" using ilog2_bounds(1) [OF xpos] by (simp add: e_def)
  then have "2 ^ 52 * 2 powi e \<le> \<bar>x\<bar>" by (simp add: power_int_add mult.commute)
  then have lo: "2 ^ 52 \<le> \<bar>y\<bar>" using p by (simp add: y_def pos_le_divide_eq)
  have "\<bar>x\<bar> < 2 powi (e + 53)" using ilog2_bounds(2) [OF xpos] by (simp add: e_def add.commute)
  then have "\<bar>x\<bar> < 2 ^ 53 * 2 powi e" by (simp add: power_int_add mult.commute)
  then have hi: "\<bar>y\<bar> < 2 ^ 53" using p by (simp add: y_def pos_divide_less_eq)
  show ?thesis
  proof (cases "0 < x")
    case True
    then have ypos: "0 < y" using p by (simp add: y_def)
    have "of_int (2 ^ 52) \<le> y" using lo ypos by simp
    then have 1: "2 ^ 52 \<le> m" unfolding m_def by (rule round_half_even_ge)
    have "y \<le> of_int (2 ^ 53)" using hi ypos by simp
    then have 2: "m \<le> 2 ^ 53" unfolding m_def by (rule round_half_even_le)
    from 1 2 b True show ?thesis by (intro exI [of _ m] exI [of _ e]) auto
  next
    case False
    with assms have xneg: "x < 0" by simp
    then have yneg: "y < 0" using p by (simp add: y_def divide_neg_pos)
    have "y \<le> of_int (- (2 ^ 52))" using lo yneg by simp
    then have 1: "m \<le> - (2 ^ 52)" unfolding m_def by (rule round_half_even_le)
    have "of_int (- (2 ^ 53)) \<le> y" using hi yneg by simp
    then have 2: "- (2 ^ 53) \<le> m" unfolding m_def by (rule round_half_even_ge)
    from 1 2 b xneg show ?thesis by (intro exI [of _ m] exI [of _ e]) auto
  qed
qed

lemma binary64_representable: "representable (binary64 x)"
proof (cases "x = 0")
  case True
  then show ?thesis by (auto simp: representable_def binary64_def intro: exI [of _ 0])
next
  case False
  from binary64_scaled [OF False] obtain m e where
    b: "binary64 x = of_int m * 2 powi e" and m: "2 ^ 52 \<le> \<bar>m\<bar>" "\<bar>m\<bar> \<le> 2 ^ 53" by blast
  show ?thesis
  proof (cases "\<bar>m\<bar> = 2 ^ 53")
    case True
    then have "m = 2 ^ 53 \<or> m = - (2 ^ 53)" by linarith
    then have "m = 2 * (m div 2)" by auto
    then have "of_int m * (2::rat) powi e = of_int (m div 2) * 2 powi (e + 1)"
      by (simp add: power_int_add)
    moreover have "\<bar>m div 2\<bar> < 2 ^ 53" using \<open>m = 2 ^ 53 \<or> m = - (2 ^ 53)\<close> by auto
    ultimately show ?thesis using b unfolding representable_def by metis
  next
    case False
    with m have "\<bar>m\<bar> < 2 ^ 53" by simp
    with b show ?thesis unfolding representable_def by blast
  qed
qed

lemma binary64_idem: "binary64 (binary64 x) = binary64 x"
  by (rule binary64_representable_id [OF binary64_representable])

lemma binary64_of_int: "\<bar>n\<bar> < 2 ^ 53 \<Longrightarrow> binary64 (of_int n) = of_int n"
proof (rule binary64_representable_id)
  assume "\<bar>n\<bar> < 2 ^ 53"
  then have "of_int n = (of_int n :: rat) * 2 powi 0 \<and> \<bar>n\<bar> < 2 ^ 53" by simp
  then show "representable (of_int n)" unfolding representable_def by blast
qed

lemma binary64_pos: "0 < x \<Longrightarrow> 0 < binary64 x"
  using binary64_scaled [of x] by (auto simp: zero_less_mult_iff zero_less_power_int)

lemma binary64_neg: "x < 0 \<Longrightarrow> binary64 x < 0"
  using binary64_scaled [of x] by (auto simp: mult_less_0_iff zero_less_power_int not_less)

lemma binary64_upper:
  assumes "0 \<le> x" "x \<le> y" "representable y"
  shows "binary64 x \<le> y"
proof (cases "x = 0")
  case True
  with assms show ?thesis by (simp add: binary64_def)
next
  case False
  with assms have xpos: "0 < x" by simp
  then have ax: "\<bar>x\<bar> = x" by simp
  from assms(3) obtain m k where y: "y = of_int m * 2 powi k" and m: "\<bar>m\<bar> < 2 ^ 53"
    by (auto simp: representable_def)
  define e where "e = ilog2 x - 52"
  have p: "(0::rat) < 2 powi e" by (simp add: zero_less_power_int)
  have "2 powi (e + 52) \<le> x" using ilog2_bounds(1) [OF xpos] by (simp add: e_def)
  also have "x \<le> y" by (rule assms(2))
  also have "y < 2 ^ 53 * 2 powi k"
  proof -
    have "(of_int m :: rat) < of_int (2 ^ 53)" using m by (simp only: of_int_less_iff)
    then show ?thesis by (simp add: y mult_strict_right_mono zero_less_power_int)
  qed
  also have "\<dots> = 2 powi (53 + k)" by (simp add: power_int_add)
  finally have "e + 52 < 53 + k" by (rule powi2_less_cancel)
  then have le: "0 \<le> k - e" by simp
  have "y / 2 powi e = of_int m * 2 powi (k - e)" by (simp add: y power_int_diff)
  also have "\<dots> = of_int (m * 2 ^ nat (k - e))" using le by (simp add: power_int_def)
  finally have q: "y / 2 powi e = of_int (m * 2 ^ nat (k - e))" .
  have "x / 2 powi e \<le> y / 2 powi e" using assms(2) p by (simp add: divide_right_mono)
  then have "round_half_even (x / 2 powi e) \<le> m * 2 ^ nat (k - e)"
    unfolding q by (rule round_half_even_le)
  then have "(of_int (round_half_even (x / 2 powi e)) :: rat) \<le> of_int (m * 2 ^ nat (k - e))"
    by (simp only: of_int_le_iff)
  then have "of_int (round_half_even (x / 2 powi e)) * 2 powi e \<le> y / 2 powi e * 2 powi e"
    unfolding q using p by (simp only: mult_right_mono less_imp_le)
  moreover have "binary64 x = of_int (round_half_even (x / 2 powi e)) * 2 powi e"
    using False ax by (simp add: binary64_def e_def Let_def)
  ultimately show ?thesis by simp
qed

lemma representable_scale:
  assumes "representable y" shows "representable (y / 2 ^ n)"
proof -
  from assms obtain m e where "y = of_int m * 2 powi e" and m: "\<bar>m\<bar> < 2 ^ 53"
    by (auto simp: representable_def)
  then have "y / 2 ^ n = of_int m * 2 powi (e - int n)" by (simp add: power_int_diff)
  with m show ?thesis unfolding representable_def by blast
qed

lemma binary64_fixed_iff: "binary64 y = y \<longleftrightarrow> representable y"
  using binary64_representable [of y] binary64_representable_id [of y] by auto

lemma round_half_even_near: "\<bar>of_int (round_half_even x) - x\<bar> \<le> 1 / 2"
proof -
  have "of_int \<lfloor>x\<rfloor> \<le> x" "x < of_int \<lfloor>x\<rfloor> + 1" by linarith+
  then show ?thesis unfolding round_half_even_def Let_def by (auto simp: abs_if) linarith+
qed

lemma binary64_near:
  assumes "x \<noteq> 0"
  shows "\<bar>binary64 x - x\<bar> \<le> 2 powi (ilog2 \<bar>x\<bar> - 53)"
proof -
  define e where "e = ilog2 \<bar>x\<bar> - 52"
  have p: "(0::rat) < 2 powi e" by (simp add: zero_less_power_int)
  have "binary64 x - x = (of_int (round_half_even (x / 2 powi e)) - x / 2 powi e) * 2 powi e"
    using assms by (simp add: binary64_def e_def Let_def algebra_simps)
  then have "\<bar>binary64 x - x\<bar> = \<bar>of_int (round_half_even (x / 2 powi e)) - x / 2 powi e\<bar> * 2 powi e"
    using p by (simp add: abs_mult)
  also have "\<dots> \<le> 1 / 2 * 2 powi e"
    using round_half_even_near [of "x / 2 powi e"] p by (simp only: mult_right_mono less_imp_le)
  also have "\<dots> = 2 powi (ilog2 \<bar>x\<bar> - 53)"
    by (simp add: e_def power_int_diff)
  finally show ?thesis .
qed

lemma float_rounding_exact: "float_rounding exact"
  by (simp add: float_rounding_def exact_def)

lemma float_rounding_binary64: "float_rounding binary64"
  unfolding float_rounding_def
proof (intro conjI allI impI)
  fix x show "binary64 (binary64 x) = binary64 x" by (rule binary64_idem)
next
  fix n :: int assume "\<bar>n\<bar> < 2 ^ 53" then show "binary64 (of_int n) = of_int n" by (rule binary64_of_int)
next
  fix x :: rat assume "0 < x" then show "0 < binary64 x" by (rule binary64_pos)
next
  fix x :: rat assume "x < 0" then show "binary64 x < 0" by (rule binary64_neg)
next
  fix x y :: rat assume "0 \<le> x \<and> x \<le> y \<and> binary64 y = y"
  then show "binary64 x \<le> y" using binary64_upper [of x y] by (simp add: binary64_fixed_iff)
next
  fix y :: rat assume "binary64 y = y"
  then have "representable y" by (simp add: binary64_fixed_iff)
  from representable_scale [OF this, of 2] have "representable (y / 4)" by simp
  then show "binary64 (y / 4) = y / 4" by (rule binary64_representable_id)
next
  fix y :: rat assume "binary64 y = y"
  then have "representable y" by (simp add: binary64_fixed_iff)
  from representable_scale [OF this, of 4] have "representable (y / 16)" by simp
  then show "binary64 (y / 16) = y / 16" by (rule binary64_representable_id)
qed

text \<open>
  Two values to compare with CPython: \<open>(0.1).as_integer_ratio()\<close> and
  \<open>(0.1 + 0.2).as_integer_ratio()\<close>.
\<close>

lemma binary64_tenth: "binary64 (1 / 10) = 3602879701896397 / 36028797018963968"
  by code_simp

lemma binary64_tenth_plus_fifth:
  "fadd binary64 (binary64 (1 / 10)) (binary64 (2 / 10)) = 1351079888211149 / 4503599627370496"
  by code_simp

section \<open>The pipeline in closed form\<close>

lemma validate_item_append: "validate_item it ps = ps @ validate_item it []"
  by (simp add: validate_item_def Let_def)

lemma validate_loop_append:
  "validate_loop its ps = ps @ concat (map (\<lambda>it. validate_item it []) its)"
proof (induction its arbitrary: ps)
  case Nil
  show ?case by simp
next
  case (Cons it its)
  have "validate_loop (it # its) ps = validate_loop its (validate_item it ps)" by simp
  also have "\<dots> = validate_item it ps @ concat (map (\<lambda>it. validate_item it []) its)"
    by (rule Cons.IH)
  also have "\<dots> = ps @ concat (map (\<lambda>it. validate_item it []) (it # its))"
    using validate_item_append [of it ps] by simp
  finally show ?case .
qed

lemma join_snoc: "join sep (xs @ [x]) = (if xs = [] then x else join sep xs @ sep @ x)"
  by (induction sep xs rule: join.induct) auto

lemma get_or_other_shipping:
  "get_or_other SHIPPING_RULES c = Inr (case SHIPPING_RULES c of Some r \<Rightarrow> r | None \<Rightarrow> [(200, 25)])"
  by (simp add: get_or_other_def SHIPPING_RULES_def)

lemma get_or_other_tax:
  "get_or_other (TAX_RATE R) c = Inr (case TAX_RATE R c of Some r \<Rightarrow> r | None \<Rightarrow> R (5 / 100))"
  by (simp add: get_or_other_def TAX_RATE_def)

lemma calculate_shipping_total:
  "calculate_shipping c s = Inr (shipping_loop (case SHIPPING_RULES c of Some r \<Rightarrow> r | None \<Rightarrow> [(200, 25)]) s)"
  by (simp add: calculate_shipping_def get_or_other_shipping)

lemma calculate_tax_total:
  "calculate_tax R c a = Inr (fmul R a (case TAX_RATE R c of Some r \<Rightarrow> r | None \<Rightarrow> R (5 / 100)))"
  by (simp add: calculate_tax_def get_or_other_tax)

lemma compute_total_invalid:
  "validate inv_opt \<noteq> [] \<Longrightarrow> compute_total R inv_opt = Inl (ValueError (join ''; '' (validate inv_opt)))"
  by (simp add: compute_total_def)

lemma compute_total_valid:
  assumes "validate (Some invoice) = []"
  shows "compute_total R (Some invoice) =
    Inr (let subtotal = fst (calculate_subtotal R (items invoice));
             fragile_fee = snd (calculate_subtotal R (items invoice));
             shipping = shipping_loop (case SHIPPING_RULES (country invoice) of Some r \<Rightarrow> r | None \<Rightarrow> [(200, 25)]) subtotal;
             discount = fst (calculate_discount R invoice subtotal []);
             tax = fmul R (fsub R subtotal discount) (case TAX_RATE R (country invoice) of Some r \<Rightarrow> r | None \<Rightarrow> R (5 / 100));
             total = fsub R (fadd R (fadd R (fadd R subtotal shipping) fragile_fee) tax) discount
         in (max total 0,
             snd (calculate_discount R invoice subtotal []) @
             (if subtotal > 10000 \<and> MEMBERSHIP_DISCOUNT R (membership invoice) = None
              then [''Consider membership upgrade''] else [])))"
  using assms
  by (simp add: compute_total_def calculate_shipping_total calculate_tax_total Let_def
      split: prod.splits)

lemma validate_None_ne: "validate None \<noteq> []" by (simp add: validate_def)

lemma compute_total_returns:
  "validate inv_opt = [] \<Longrightarrow> \<exists>total warnings. compute_total R inv_opt = Inr (total, warnings)"
proof (cases inv_opt)
  case None
  then show "validate inv_opt = [] \<Longrightarrow> ?thesis" by (simp add: validate_def)
next
  case (Some invoice)
  assume "validate inv_opt = []"
  with Some show ?thesis using compute_total_valid [of invoice R] by (simp add: Let_def)
qed

lemma shipping_loop_first:
  "i < length rules \<Longrightarrow> subtotal < fst (rules ! i) \<Longrightarrow>
   \<forall>j<i. \<not> subtotal < fst (rules ! j) \<Longrightarrow>
   shipping_loop rules subtotal = snd (rules ! i)"
proof (induction rules arbitrary: i)
  case Nil
  then show ?case by simp
next
  case (Cons rule rules)
  obtain limit fee where rule: "rule = (limit, fee)" by (cases rule)
  show ?case
  proof (cases i)
    case 0
    with Cons.prems rule show ?thesis by simp
  next
    case (Suc k)
    from Cons.prems(3) Suc have "\<not> subtotal < fst ((rule # rules) ! 0)" by blast
    then have skip: "\<not> subtotal < limit" by (simp add: rule)
    have "\<forall>j<k. \<not> subtotal < fst (rules ! j)"
    proof (intro allI impI)
      fix j assume "j < k"
      then have "Suc j < i" by (simp add: Suc)
      with Cons.prems(3) have "\<not> subtotal < fst ((rule # rules) ! Suc j)" by blast
      then show "\<not> subtotal < fst (rules ! j)" by simp
    qed
    with Cons.IH [of k] Cons.prems(1,2) Suc
    have "shipping_loop rules subtotal = snd (rules ! k)" by simp
    with skip show ?thesis by (simp add: rule Suc)
  qed
qed

lemma shipping_loop_none:
  "\<forall>p\<in>set rules. \<not> subtotal < fst p \<Longrightarrow> shipping_loop rules subtotal = 0"
  by (induction rules) auto

section \<open>Coupons and warnings\<close>

lemma fadd_exact: "fadd exact x y = x + y" by (simp add: fadd_def exact_def)

lemma fsub_exact: "fsub exact x y = x - y" by (simp add: fsub_def exact_def)

lemma fmul_exact: "fmul exact x y = x * y" by (simp add: fmul_def exact_def)

lemma validate_coupon: "validate (Some (invoice\<lparr>coupon := c\<rparr>)) = validate (Some invoice)"
  by (simp add: validate_def)

lemma strip_all_space:
  assumes "\<forall>ch\<in>set c. isspace ch" shows "strip c = []"
proof -
  from assms have "dropWhile isspace c = []" by (induction c) auto
  then have "strip c = rev (dropWhile isspace (rev []))" by (simp only: strip_def)
  then show ?thesis by simp
qed

lemma coupon_rate_empty: "coupon_rate R [] = None"
  by (simp add: coupon_rate_def)

lemma calculate_discount_no_coupon:
  "coupon invoice = None \<or> coupon invoice = Some [] \<Longrightarrow>
   calculate_discount R invoice s ws = (fst (calculate_discount R (invoice\<lparr>coupon := None\<rparr>) s ws), ws) \<and>
   calculate_discount R (invoice\<lparr>coupon := None\<rparr>) s ws = calculate_discount R invoice s ws"
  by (auto simp: calculate_discount_def Let_def)

lemma calculate_discount_unknown:
  "coupon invoice = Some c \<Longrightarrow> c \<noteq> [] \<Longrightarrow> coupon_rate R (strip c) = None \<Longrightarrow>
   calculate_discount R invoice s ws =
     (fst (calculate_discount R (invoice\<lparr>coupon := None\<rparr>) s ws), ws @ [''Unknown coupon''])"
  by (simp add: calculate_discount_def Let_def)

lemma calculate_discount_warnings:
  "snd (calculate_discount R invoice s ws) =
     ws @ (case coupon invoice of
             None \<Rightarrow> []
           | Some c \<Rightarrow> if c \<noteq> [] \<and> strip c \<notin> dom (coupon_rate R) then [''Unknown coupon''] else [])"
  by (auto simp: calculate_discount_def Let_def domIff split: option.splits)

lemma calculate_discount_without_coupon_warnings:
  "snd (calculate_discount R (invoice\<lparr>coupon := None\<rparr>) s ws) = ws"
  by (simp add: calculate_discount_warnings)

lemma compute_total_coupon_None:
  assumes "validate (Some invoice) = []"
    and "fst (calculate_discount R invoice (fst (calculate_subtotal R (items invoice))) []) =
         fst (calculate_discount R (invoice\<lparr>coupon := None\<rparr>)
                (fst (calculate_subtotal R (items invoice))) [])"
  shows "\<exists>total rest.
     compute_total R (Some invoice) =
       Inr (total, snd (calculate_discount R invoice (fst (calculate_subtotal R (items invoice))) [])
                   @ rest) \<and>
     compute_total R (Some (invoice\<lparr>coupon := None\<rparr>)) = Inr (total, rest) \<and>
     ''Unknown coupon'' \<notin> set rest"
proof -
  have v': "validate (Some (invoice\<lparr>coupon := None\<rparr>)) = []"
    using assms(1) by (simp add: validate_coupon)
  show ?thesis
    using compute_total_valid [OF assms(1), of R] compute_total_valid [OF v', of R] assms(2)
    by (simp add: Let_def calculate_discount_without_coupon_warnings)
qed

section \<open>The aggregation loop\<close>

lemma subtotal_loop_foldl:
  "subtotal_loop R its (s, f) =
     (foldl (\<lambda>s it. fadd R s (fmul R (unit_price it) (int_to_float R (qty it)))) s its,
      foldl (\<lambda>f it. fadd R f (fmul R 5 (int_to_float R (qty it)))) f (filter fragile its))"
  by (induction its arbitrary: s f) (simp_all add: Let_def)

lemma subtotal_loop_exact:
  "subtotal_loop exact its (s, f) =
     (s + (\<Sum>it\<leftarrow>its. unit_price it * of_int (qty it)),
      f + (\<Sum>it\<leftarrow>filter fragile its. 5 * of_int (qty it)))"
  by (induction its arbitrary: s f)
     (simp_all add: Let_def fadd_exact fmul_exact int_to_float_def exact_def algebra_simps)

lemma sum_list_permuted:
  fixes g :: "'a \<Rightarrow> rat"
  assumes "mset xs = mset ys"
  shows "sum_list (map g xs) = sum_list (map g ys)"
proof -
  have "sum_list (map g xs) = sum_mset (image_mset g (mset xs))"
    by (simp flip: sum_mset_sum_list)
  also have "\<dots> = sum_mset (image_mset g (mset ys))" by (simp only: assms)
  also have "\<dots> = sum_list (map g ys)" by (simp flip: sum_mset_sum_list)
  finally show ?thesis .
qed

lemma filter_permuted: "mset xs = mset ys \<Longrightarrow> mset (filter P xs) = mset (filter P ys)"
  by (metis mset_filter)

section \<open>Scenario C, step by step\<close>

lemma strip_WELCOME10: "strip ''WELCOME10'' = ''WELCOME10''"
  by (simp add: strip_def isspace_def)

lemma scenario_C_discount:
  assumes "membership invoice = ''gold''" and "coupon invoice = Some ''WELCOME10''"
  shows "calculate_discount R invoice 4000 [] =
     (fadd R (fadd R 0 (fmul R 4000 (R (3 / 100)))) (fmul R 4000 (R (10 / 100))), [])"
  using assms
  by (simp add: calculate_discount_def MEMBERSHIP_DISCOUNT_def coupon_rate_def strip_WELCOME10
      Let_def)

lemma scenario_C_total_formula:
  assumes "validate (Some invoice) = []"
    and "country invoice = ''US''" and "membership invoice = ''gold''"
    and "coupon invoice = Some ''WELCOME10''"
    and "calculate_subtotal R (items invoice) = (4000, 0)"
  shows "compute_total R (Some invoice) =
     Inr (let discount = fadd R (fadd R 0 (fmul R 4000 (R (3 / 100)))) (fmul R 4000 (R (10 / 100)));
              tax = fmul R (fsub R 4000 discount) (R (8 / 100));
              total = fsub R (fadd R (fadd R (fadd R 4000 0) 0) tax) discount
          in (max total 0, []))"
  using compute_total_valid [OF assms(1), of R] assms(2,3,5) scenario_C_discount [OF assms(3,4), of R]
  by (simp add: Let_def SHIPPING_RULES_def TAX_RATE_def MEMBERSHIP_DISCOUNT_def)

lemma scenario_C_binary64_values:
  "fadd binary64 (fadd binary64 0 (fmul binary64 4000 (binary64 (3 / 100))))
     (fmul binary64 4000 (binary64 (10 / 100))) = 520"
  "fmul binary64 (fsub binary64 4000 520) (binary64 (8 / 100)) =
     4897664594765415 / 17592186044416"
  "max (fsub binary64 (fadd binary64 (fadd binary64 (fadd binary64 4000 0) 0)
          (4897664594765415 / 17592186044416)) 520) 0 = 2066202250916659 / 549755813888"
  by code_simp+

lemma scenario_C_exact_values:
  "fadd exact (fadd exact 0 (fmul exact 4000 (exact (3 / 100))))
     (fmul exact 4000 (exact (10 / 100))) = 520"
  "fmul exact (fsub exact 4000 520) (exact (8 / 100)) = 1392 / 5"
  "max (fsub exact (fadd exact (fadd exact (fadd exact 4000 0) 0) (1392 / 5)) 520) 0 = 18792 / 5"
  by (simp_all add: fadd_exact fsub_exact fmul_exact exact_def)

lemma scenario_C_shipping_tax:
  "country invoice = ''US'' \<Longrightarrow> calculate_shipping (country invoice) 4000 = Inr 0"
  "country invoice = ''US'' \<Longrightarrow>
   calculate_tax R (country invoice) a = Inr (fmul R a (R (8 / 100)))"
  by (simp_all add: calculate_shipping_total calculate_tax_total SHIPPING_RULES_def TAX_RATE_def)

section \<open>Consequences of the rounding properties\<close>

lemma float_rounding_idem: "float_rounding R \<Longrightarrow> R (R x) = R x"
  by (simp add: float_rounding_def)

lemma float_rounding_numeral:
  assumes "float_rounding R"
  shows "R 0 = 0" "R 1 = 1" "R 20 = 20"
proof -
  have i: "\<And>n::int. \<bar>n\<bar> < 2 ^ 53 \<Longrightarrow> R (of_int n) = of_int n"
    using assms by (simp add: float_rounding_def)
  from i [of 0] show "R 0 = 0" by simp
  from i [of 1] show "R 1 = 1" by simp
  from i [of 20] show "R 20 = 20" by simp
qed

lemma float_rounding_pos: "float_rounding R \<Longrightarrow> 0 < x \<Longrightarrow> 0 < R x"
  by (simp add: float_rounding_def)

lemma float_rounding_neg: "float_rounding R \<Longrightarrow> x < 0 \<Longrightarrow> R x < 0"
  by (simp add: float_rounding_def)

lemma float_rounding_nonneg:
  assumes "float_rounding R" "0 \<le> x" shows "0 \<le> R x"
proof (cases "x = 0")
  case True
  then show ?thesis using float_rounding_numeral(1) [OF assms(1)] by simp
next
  case False
  with assms(2) have "0 < x" by simp
  then show ?thesis using float_rounding_pos [OF assms(1)] by (simp add: less_imp_le)
qed

lemma float_rounding_upper:
  "float_rounding R \<Longrightarrow> 0 \<le> x \<Longrightarrow> x \<le> y \<Longrightarrow> R y = y \<Longrightarrow> R x \<le> y"
  unfolding float_rounding_def by blast

lemma float_rounding_fraction:
  assumes "float_rounding R" "R y = y"
  shows "R (y / 4) = y / 4" "R (y / 16) = y / 16"
  using assms unfolding float_rounding_def by blast+

lemma tax_rate_pos:
  assumes "float_rounding R" "TAX_RATE R c = Some rate" shows "0 < rate"
proof -
  have "rate \<in> {R (7 / 100), R (10 / 100), R (8 / 100), R (5 / 100)}"
    using assms(2) by (auto simp: TAX_RATE_def split: if_splits)
  then show ?thesis using float_rounding_pos [OF assms(1)] by auto
qed

lemma tax_rate_other: "TAX_RATE R ''OTHER'' = Some (R (5 / 100))"
  by (simp add: TAX_RATE_def)

section \<open>Bounds on the discount\<close>

lemma validate_Some:
  "validate (Some invoice) =
     (if invoice_id invoice = [] then [''Missing invoice_id''] else []) @
     (if customer_id invoice = [] then [''Missing customer_id''] else []) @
     (if items invoice = [] then [''Invoice must contain items''] else []) @
     concat (map (\<lambda>it. validate_item it []) (items invoice))"
  by (simp add: validate_def Let_def validate_loop_append)

lemma valid_items:
  assumes "validate (Some invoice) = []"
  shows "\<forall>it\<in>set (items invoice). 0 < qty it \<and> 0 \<le> unit_price it"
proof
  fix it assume "it \<in> set (items invoice)"
  moreover from assms have "concat (map (\<lambda>it. validate_item it []) (items invoice)) = []"
    by (simp add: validate_Some)
  ultimately have "validate_item it [] = []" by simp
  then show "0 < qty it \<and> 0 \<le> unit_price it"
    by (simp add: validate_item_def Let_def split: if_splits)
qed

lemma subtotal_loop_nonneg_fixed:
  assumes fr: "float_rounding R"
  shows "\<forall>it\<in>set its. 0 < qty it \<and> 0 \<le> unit_price it \<Longrightarrow> 0 \<le> s \<Longrightarrow> R s = s \<Longrightarrow>
         0 \<le> fst (subtotal_loop R its (s, f)) \<and>
         R (fst (subtotal_loop R its (s, f))) = fst (subtotal_loop R its (s, f))"
proof (induction its arbitrary: s f)
  case Nil
  then show ?case by simp
next
  case (Cons it its)
  define s' where "s' = fadd R s (fmul R (unit_price it) (int_to_float R (qty it)))"
  from Cons.prems(1) have q: "0 < qty it" and p: "0 \<le> unit_price it" by simp_all
  have "0 \<le> int_to_float R (qty it)"
    unfolding int_to_float_def using q by (intro float_rounding_nonneg [OF fr]) simp
  then have "0 \<le> fmul R (unit_price it) (int_to_float R (qty it))"
    unfolding fmul_def using p by (intro float_rounding_nonneg [OF fr]) simp
  then have 1: "0 \<le> s'"
    unfolding s'_def fadd_def using Cons.prems(2) by (intro float_rounding_nonneg [OF fr]) simp
  have 2: "R s' = s'" unfolding s'_def fadd_def by (rule float_rounding_idem [OF fr])
  from Cons.prems(1) have rest: "\<forall>it\<in>set its. 0 < qty it \<and> 0 \<le> unit_price it" by simp
  from Cons.IH [OF rest 1 2] show ?case by (simp add: Let_def s'_def)
qed

lemma valid_subtotal:
  assumes "float_rounding R" "validate (Some invoice) = []"
  shows "0 \<le> fst (calculate_subtotal R (items invoice))"
        "R (fst (calculate_subtotal R (items invoice))) = fst (calculate_subtotal R (items invoice))"
  using subtotal_loop_nonneg_fixed [OF assms(1) valid_items [OF assms(2)], of 0 0]
        float_rounding_numeral(1) [OF assms(1)]
  by (simp_all add: calculate_subtotal_def)

lemma float_rounding_unit_fractions:
  assumes "float_rounding R" shows "R (1 / 4) = 1 / 4" "R (1 / 16) = 1 / 16"
  using float_rounding_fraction [OF assms float_rounding_numeral(2) [OF assms]] by simp_all

lemma membership_rate_bounds:
  assumes fr: "float_rounding R" and "MEMBERSHIP_DISCOUNT R m = Some rate"
  shows "0 \<le> rate \<and> rate \<le> 1 / 16"
proof -
  have "rate = R (3 / 100) \<or> rate = R (5 / 100)"
    using assms(2) by (auto simp: MEMBERSHIP_DISCOUNT_def split: if_splits)
  moreover have "0 \<le> R (3 / 100)" "0 \<le> R (5 / 100)"
    by (rule float_rounding_nonneg [OF fr], simp)+
  moreover have "R (3 / 100) \<le> 1 / 16" "R (5 / 100) \<le> 1 / 16"
    by (rule float_rounding_upper [OF fr _ _ float_rounding_unit_fractions(2) [OF fr]], simp, simp)+
  ultimately show ?thesis by auto
qed

lemma coupon_rate_bounds:
  assumes fr: "float_rounding R" and "coupon_rate R code = Some rate"
  shows "0 \<le> rate \<and> rate \<le> 1 / 4"
proof -
  have "rate = R (10 / 100) \<or> rate = R (20 / 100) \<or> rate = R (5 / 100)"
    using assms(2) by (auto simp: coupon_rate_def split: if_splits)
  moreover have "0 \<le> R (10 / 100)" "0 \<le> R (20 / 100)" "0 \<le> R (5 / 100)"
    by (rule float_rounding_nonneg [OF fr], simp)+
  moreover have "R (10 / 100) \<le> 1 / 4" "R (20 / 100) \<le> 1 / 4" "R (5 / 100) \<le> 1 / 4"
    by (rule float_rounding_upper [OF fr _ _ float_rounding_unit_fractions(1) [OF fr]], simp, simp)+
  ultimately show ?thesis by auto
qed

lemma fmul_share:
  assumes fr: "float_rounding R" and s: "0 \<le> s" "R s = s" and r: "0 \<le> rate"
  shows "0 \<le> fmul R s rate"
    and "rate \<le> 1 / 4 \<Longrightarrow> fmul R s rate \<le> s / 4"
    and "rate \<le> 1 / 16 \<Longrightarrow> fmul R s rate \<le> s / 16"
proof -
  have nn: "0 \<le> s * rate" using s(1) r by simp
  show "0 \<le> fmul R s rate" unfolding fmul_def by (rule float_rounding_nonneg [OF fr nn])
  {
    assume "rate \<le> 1 / 4"
    then have "s * rate \<le> s * (1 / 4)" using s(1) by (rule mult_left_mono)
    then have "s * rate \<le> s / 4" by simp
    then show "fmul R s rate \<le> s / 4"
      unfolding fmul_def
      by (rule float_rounding_upper [OF fr nn _ float_rounding_fraction(1) [OF fr s(2)]])
  }
  {
    assume "rate \<le> 1 / 16"
    then have "s * rate \<le> s * (1 / 16)" using s(1) by (rule mult_left_mono)
    then have "s * rate \<le> s / 16" by simp
    then show "fmul R s rate \<le> s / 16"
      unfolding fmul_def
      by (rule float_rounding_upper [OF fr nn _ float_rounding_fraction(2) [OF fr s(2)]])
  }
qed

lemma fadd_zero:
  assumes fr: "float_rounding R"
  shows "fadd R 0 (fmul R a b) = fmul R a b" "fadd R (fmul R a b) 0 = fmul R a b"
    "fadd R 0 20 = 20" "fadd R 20 0 = 20" "fadd R 0 0 = 0"
  using float_rounding_idem [OF fr] float_rounding_numeral [OF fr]
  by (simp_all add: fadd_def fmul_def)

lemma calculate_discount_sum:
  assumes fr: "float_rounding R"
  shows "fst (calculate_discount R invoice subtotal warnings) =
     fadd R (spec_membership_discount R invoice subtotal) (spec_coupon_discount R invoice subtotal)"
  by (simp add: calculate_discount_def spec_membership_discount_def spec_coupon_discount_def
      Let_def fadd_zero [OF fr] split: option.splits)

lemma spec_membership_discount_bounds:
  assumes fr: "float_rounding R" and s: "0 \<le> s" "R s = s"
  shows "0 \<le> spec_membership_discount R invoice s"
    and "spec_membership_discount R invoice s \<le> 3 * s / 4"
proof -
  show "0 \<le> spec_membership_discount R invoice s"
    using fmul_share(1) [OF fr s] membership_rate_bounds [OF fr]
    by (auto simp: spec_membership_discount_def split: option.splits)
  show "spec_membership_discount R invoice s \<le> 3 * s / 4"
  proof (cases "MEMBERSHIP_DISCOUNT R (membership invoice)")
    case None
    then show ?thesis using s(1) by (simp add: spec_membership_discount_def)
  next
    case (Some rate)
    from membership_rate_bounds [OF fr Some] fmul_share(3) [OF fr s, of rate]
    have "fmul R s rate \<le> s / 16" by simp
    with s(1) Some show ?thesis by (simp add: spec_membership_discount_def)
  qed
qed

lemma spec_coupon_discount_bounds:
  assumes fr: "float_rounding R" and s: "0 \<le> s" "R s = s"
  shows "0 \<le> spec_coupon_discount R invoice s"
    and "spec_coupon_discount R invoice s \<le> s / 4"
proof -
  show "0 \<le> spec_coupon_discount R invoice s"
    using fmul_share(1) [OF fr s] coupon_rate_bounds [OF fr]
    by (auto simp: spec_coupon_discount_def split: option.splits)
  show "spec_coupon_discount R invoice s \<le> s / 4"
    using fmul_share(2) [OF fr s] coupon_rate_bounds [OF fr] s(1)
    by (auto simp: spec_coupon_discount_def split: option.splits)
qed

lemma discount_le_subtotal:
  assumes fr: "float_rounding R" and v: "validate (Some invoice) = []"
  shows "fst (calculate_discount R invoice (fst (calculate_subtotal R (items invoice))) warnings)
           \<le> fst (calculate_subtotal R (items invoice))"
proof -
  define s where "s = fst (calculate_subtotal R (items invoice))"
  have s: "0 \<le> s" "R s = s" unfolding s_def by (rule valid_subtotal [OF fr v])+
  define m where "m = spec_membership_discount R invoice s"
  define c where "c = spec_coupon_discount R invoice s"
  have m: "0 \<le> m" "m \<le> 3 * s / 4"
    unfolding m_def by (rule spec_membership_discount_bounds [OF fr s])+
  have c: "0 \<le> c" "c \<le> s / 4"
    unfolding c_def by (rule spec_coupon_discount_bounds [OF fr s])+
  have "0 \<le> m + c" using m(1) c(1) by simp
  moreover have "m + c \<le> s" using m(2) c(2) by simp
  ultimately have "R (m + c) \<le> s" using s(2) by (rule float_rounding_upper [OF fr])
  then show ?thesis
    unfolding s_def [symmetric]
    by (simp add: calculate_discount_sum [OF fr] fadd_def m_def c_def)
qed

section \<open>The claims\<close>

subsection \<open>The clamped total\<close>



subsection \<open>Validation failures\<close>

text \<open>
  Claim C2. \<open>compute_total\<close> raises the \<open>ValueError\<close> exactly when \<open>_validate\<close>
  returns a non-empty list, and its message is that list joined by \<open>"; "\<close>; with an
  empty list it returns a total and warnings. A missing invoice gives the single problem
  \<open>Invoice is missing\<close>. Otherwise the list is, in this order, the problems of the
  invoice's own fields followed by those of every item, each item adding up to four problems
  to the list it is given; nothing stops at the first problem. An invoice without items fails
  with a message that contains \<open>Invoice must contain items\<close>.
\<close>

theorem compute_total_validation_error:
  "(validate inv_opt \<noteq> [] \<longrightarrow>
      compute_total R inv_opt = Inl (ValueError (join ''; '' (validate inv_opt)))) \<and>
   (validate inv_opt = [] \<longrightarrow>
      (\<exists>total warnings. compute_total R inv_opt = Inr (total, warnings))) \<and>
   validate None = [''Invoice is missing''] \<and>
   validate (Some invoice) =
     (if invoice_id invoice = [] then [''Missing invoice_id''] else []) @
     (if customer_id invoice = [] then [''Missing customer_id''] else []) @
     (if items invoice = [] then [''Invoice must contain items''] else []) @
     concat (map (\<lambda>it. validate_item it []) (items invoice)) \<and>
   validate_item it problems =
     problems @
     (if sku it = [] then [''Item sku is missing''] else []) @
     (if qty it \<le> 0 then [''Invalid qty for '' @ sku it] else []) @
     (if unit_price it < 0 then [''Invalid price for '' @ sku it] else []) @
     (if category it \<notin> VALID_CATEGORIES then [''Unknown category for '' @ sku it] else []) \<and>
   (items invoice = [] \<longrightarrow>
      (\<exists>pre post. compute_total R (Some invoice) =
         Inl (ValueError (pre @ ''Invoice must contain items'' @ post))))"
proof (intro conjI impI)
  assume "validate inv_opt \<noteq> []"
  then show "compute_total R inv_opt = Inl (ValueError (join ''; '' (validate inv_opt)))"
    by (rule compute_total_invalid)
next
  assume "validate inv_opt = []"
  then show "\<exists>total warnings. compute_total R inv_opt = Inr (total, warnings)"
    by (rule compute_total_returns)
next
  show "validate None = [''Invoice is missing'']" by (simp add: validate_def)
next
  show "validate (Some invoice) =
     (if invoice_id invoice = [] then [''Missing invoice_id''] else []) @
     (if customer_id invoice = [] then [''Missing customer_id''] else []) @
     (if items invoice = [] then [''Invoice must contain items''] else []) @
     concat (map (\<lambda>it. validate_item it []) (items invoice))"
    by (simp add: validate_def Let_def validate_loop_append)
next
  show "validate_item it problems =
     problems @
     (if sku it = [] then [''Item sku is missing''] else []) @
     (if qty it \<le> 0 then [''Invalid qty for '' @ sku it] else []) @
     (if unit_price it < 0 then [''Invalid price for '' @ sku it] else []) @
     (if category it \<notin> VALID_CATEGORIES then [''Unknown category for '' @ sku it] else [])"
    by (simp add: validate_item_def Let_def)
next
  assume e: "items invoice = []"
  define hd_problems where "hd_problems =
     (if invoice_id invoice = [] then [''Missing invoice_id''] else []) @
     (if customer_id invoice = [] then [''Missing customer_id''] else [])"
  have v: "validate (Some invoice) = hd_problems @ [''Invoice must contain items'']"
    using e by (simp add: validate_def Let_def hd_problems_def)
  then have "validate (Some invoice) \<noteq> []" by simp
  then have "compute_total R (Some invoice) =
      Inl (ValueError (join ''; '' (hd_problems @ [''Invoice must contain items''])))"
    unfolding v [symmetric] by (rule compute_total_invalid)
  also have "join ''; '' (hd_problems @ [''Invoice must contain items'']) =
      (if hd_problems = [] then [] else join ''; '' hd_problems @ ''; '') @
      ''Invoice must contain items'' @ []"
    by (simp add: join_snoc)
  finally show "\<exists>pre post. compute_total R (Some invoice) =
         Inl (ValueError (pre @ ''Invoice must contain items'' @ post))"
    by blast
qed

theorem compute_total_validation_error_witness:
  "validate (Some empty_invoice) \<noteq> [] \<and>
   items empty_invoice = [] \<and>
   compute_total binary64 (Some empty_invoice) =
     Inl (ValueError ''Missing invoice_id; Invoice must contain items'') \<and>
   validate (Some scenario_C) = [] \<and>
   (\<exists>total warnings. compute_total binary64 (Some scenario_C) = Inr (total, warnings))"
proof -
  have bad: "validate (Some empty_invoice) \<noteq> []" by code_simp
  have msg: "join ''; '' (validate (Some empty_invoice)) =
      ''Missing invoice_id; Invoice must contain items''" by code_simp
  have none: "items empty_invoice = []" by (simp add: empty_invoice_def)
  have good: "validate (Some scenario_C) = []" by code_simp
  from compute_total_validation_error [where inv_opt = "Some empty_invoice" and R = binary64]
  have "compute_total binary64 (Some empty_invoice) =
      Inl (ValueError (join ''; '' (validate (Some empty_invoice))))"
    using bad by blast
  then have 1: "compute_total binary64 (Some empty_invoice) =
      Inl (ValueError ''Missing invoice_id; Invoice must contain items'')"
    by (simp only: msg)
  from compute_total_validation_error [where inv_opt = "Some scenario_C" and R = binary64]
  have 2: "\<exists>total warnings. compute_total binary64 (Some scenario_C) = Inr (total, warnings)"
    using good by blast
  from bad none 1 good 2 show ?thesis by blast
qed

subsection \<open>Shipping\<close>

text \<open>
  Claim C3. \<open>_calculate_shipping\<close> scans the rules of the country, or those of
  \<open>"OTHER"\<close> when the country has no entry, and never fails. The scan of any rule list
  returns the fee at the first index whose threshold is strictly above the subtotal, and
  \<open>0\<close> when no threshold is (in particular for the empty list).
\<close>

theorem calculate_shipping_first_match:
  "(\<exists>other. SHIPPING_RULES ''OTHER'' = Some other \<and>
      calculate_shipping cntry subtotal =
        Inr (shipping_loop (case SHIPPING_RULES cntry of Some rules \<Rightarrow> rules | None \<Rightarrow> other)
               subtotal)) \<and>
   (i < length rules \<and> subtotal < fst (rules ! i) \<and> (\<forall>j<i. \<not> subtotal < fst (rules ! j)) \<longrightarrow>
      shipping_loop rules subtotal = snd (rules ! i)) \<and>
   ((\<forall>p\<in>set rules. \<not> subtotal < fst p) \<longrightarrow> shipping_loop rules subtotal = 0)"
proof (intro conjI impI)
  have "SHIPPING_RULES ''OTHER'' = Some [(200, 25)]" by (simp add: SHIPPING_RULES_def)
  then show "\<exists>other. SHIPPING_RULES ''OTHER'' = Some other \<and>
      calculate_shipping cntry subtotal =
        Inr (shipping_loop (case SHIPPING_RULES cntry of Some rules \<Rightarrow> rules | None \<Rightarrow> other)
               subtotal)"
    by (simp add: calculate_shipping_total)
next
  assume "i < length rules \<and> subtotal < fst (rules ! i) \<and> (\<forall>j<i. \<not> subtotal < fst (rules ! j))"
  then show "shipping_loop rules subtotal = snd (rules ! i)"
    using shipping_loop_first [of i rules subtotal] by blast
next
  assume "\<forall>p\<in>set rules. \<not> subtotal < fst p"
  then show "shipping_loop rules subtotal = 0" by (rule shipping_loop_none)
qed

theorem calculate_shipping_first_match_witness:
  "SHIPPING_RULES ''US'' = Some [(100, 15), (300, 8)] \<and>
   SHIPPING_RULES ''FR'' = None \<and>
   SHIPPING_RULES ''OTHER'' = Some [(200, 25)] \<and>
   calculate_shipping ''US'' 150 = Inr 8 \<and>
   calculate_shipping ''US'' 4000 = Inr 0 \<and>
   calculate_shipping ''FR'' 150 = Inr 25 \<and>
   shipping_loop [] 150 = 0"
proof -
  let ?us = "[(100, 15), (300, 8)] :: (rat \<times> rat) list"
  have us: "SHIPPING_RULES ''US'' = Some ?us" by (simp add: SHIPPING_RULES_def)
  have fr: "SHIPPING_RULES ''FR'' = None" by (simp add: SHIPPING_RULES_def)
  have other: "SHIPPING_RULES ''OTHER'' = Some [(200, 25)]" by (simp add: SHIPPING_RULES_def)
  have a: "shipping_loop ?us 150 = snd (?us ! 1)"
    using calculate_shipping_first_match [where i = 1 and rules = ?us and subtotal = 150]
    by simp
  have b: "shipping_loop ?us 4000 = 0"
    using calculate_shipping_first_match [where rules = ?us and subtotal = 4000] by simp
  have c: "shipping_loop [(200, 25)] 150 = snd ([(200, 25)] ! 0)"
    using calculate_shipping_first_match [where i = 0 and rules = "[(200, 25)]" and subtotal = 150]
    by simp
  have d: "shipping_loop [] (150::rat) = 0"
    using calculate_shipping_first_match [where rules = "[]" and subtotal = 150] by simp
  have 1: "calculate_shipping ''US'' 150 = Inr 8"
    using calculate_shipping_first_match [where cntry = "''US''" and subtotal = 150] us other a
    by simp
  have 2: "calculate_shipping ''US'' 4000 = Inr 0"
    using calculate_shipping_first_match [where cntry = "''US''" and subtotal = 4000] us other b
    by simp
  have 3: "calculate_shipping ''FR'' 150 = Inr 25"
    using calculate_shipping_first_match [where cntry = "''FR''" and subtotal = 150] fr other c
    by simp
  from us fr other 1 2 3 d show ?thesis by blast
qed

subsection \<open>Discount\<close>

text \<open>
  Claim C4, as amended. The discount is the float sum of the membership contribution and the
  coupon contribution (the plain sum in exact arithmetic): the tier's share of the subtotal,
  else the flat 20 exactly when the subtotal is above 3000, plus the share of a recognised
  coupon. No cap is applied to the sum. For an invoice that passes validation the discount
  is nevertheless at most the subtotal.
\<close>

theorem discount_is_sum_of_contributions:
  assumes "float_rounding R"
  shows "fst (calculate_discount R invoice subtotal warnings) =
           fadd R (spec_membership_discount R invoice subtotal)
                  (spec_coupon_discount R invoice subtotal) \<and>
         (R = exact \<longrightarrow>
            fst (calculate_discount R invoice subtotal warnings) =
              spec_membership_discount R invoice subtotal + spec_coupon_discount R invoice subtotal) \<and>
         (validate (Some invoice) = [] \<and> subtotal = fst (calculate_subtotal R (items invoice)) \<longrightarrow>
            fst (calculate_discount R invoice subtotal warnings) \<le> subtotal)"
proof (intro conjI impI)
  show sum: "fst (calculate_discount R invoice subtotal warnings) =
           fadd R (spec_membership_discount R invoice subtotal)
                  (spec_coupon_discount R invoice subtotal)"
    by (rule calculate_discount_sum [OF assms])
  assume "R = exact"
  with sum show "fst (calculate_discount R invoice subtotal warnings) =
      spec_membership_discount R invoice subtotal + spec_coupon_discount R invoice subtotal"
    by (simp add: fadd_exact)
next
  assume "validate (Some invoice) = [] \<and> subtotal = fst (calculate_subtotal R (items invoice))"
  then show "fst (calculate_discount R invoice subtotal warnings) \<le> subtotal"
    using discount_le_subtotal [OF assms, of invoice warnings] by simp
qed

theorem discount_is_sum_of_contributions_witness:
  "float_rounding binary64 \<and>
   validate (Some scenario_C) = [] \<and>
   fst (calculate_subtotal binary64 (items scenario_C)) = 4000 \<and>
   spec_membership_discount binary64 scenario_C 4000 = 120 \<and>
   spec_coupon_discount binary64 scenario_C 4000 = 400 \<and>
   fst (calculate_discount binary64 scenario_C 4000 []) = 520 \<and>
   fst (calculate_discount binary64 scenario_C 4000 []) \<le> 4000 \<and>
   spec_membership_discount binary64 big_order 12000 = 20 \<and>
   spec_coupon_discount binary64 big_order 12000 = 0 \<and>
   fst (calculate_discount binary64 big_order 12000 []) = 20 \<and>
   float_rounding exact \<and>
   fst (calculate_discount exact scenario_C 4000 []) = 520"
proof -
  note fr = float_rounding_binary64
  have v: "validate (Some scenario_C) = []" by code_simp
  have s: "fst (calculate_subtotal binary64 (items scenario_C)) = 4000" by code_simp
  have m: "spec_membership_discount binary64 scenario_C 4000 = 120" by code_simp
  have c: "spec_coupon_discount binary64 scenario_C 4000 = 400" by code_simp
  have a: "fadd binary64 120 400 = 520" by code_simp
  have m': "spec_membership_discount binary64 big_order 12000 = 20" by code_simp
  have c': "spec_coupon_discount binary64 big_order 12000 = 0" by code_simp
  have a': "fadd binary64 20 0 = 20" by code_simp
  have e: "spec_membership_discount exact scenario_C 4000 + spec_coupon_discount exact scenario_C 4000
           = 520" by code_simp
  from discount_is_sum_of_contributions [OF fr, of scenario_C 4000 "[]"] v s m c a
  have 1: "fst (calculate_discount binary64 scenario_C 4000 []) = 520 \<and>
           fst (calculate_discount binary64 scenario_C 4000 []) \<le> 4000"
    by simp
  from discount_is_sum_of_contributions [OF fr, of big_order 12000 "[]"] m' c' a'
  have 2: "fst (calculate_discount binary64 big_order 12000 []) = 20" by simp
  from discount_is_sum_of_contributions [OF float_rounding_exact, of scenario_C 4000 "[]"] e
  have 3: "fst (calculate_discount exact scenario_C 4000 []) = 520" by simp
  from fr v s m c 1 m' c' 2 float_rounding_exact 3 show ?thesis by blast
qed

text \<open>
  Claim C4 as stated fails in its last sentence: no valid invoice has a discount above its
  subtotal, with the rounding of doubles or in exact
  arithmetic: the rates add up to at most a quarter, and the flat 20 applies only above 3000.
\<close>

theorem discount_exceeds_subtotal_counterexample:
  "\<not> (\<exists>invoice warnings.
         validate (Some invoice) = [] \<and>
         fst (calculate_subtotal binary64 (items invoice)) <
           fst (calculate_discount binary64 invoice
                  (fst (calculate_subtotal binary64 (items invoice))) warnings)) \<and>
   \<not> (\<exists>invoice warnings.
         validate (Some invoice) = [] \<and>
         fst (calculate_subtotal exact (items invoice)) <
           fst (calculate_discount exact invoice
                  (fst (calculate_subtotal exact (items invoice))) warnings))"
  using discount_le_subtotal [OF float_rounding_binary64]
        discount_le_subtotal [OF float_rounding_exact]
  by (auto simp: not_less)

subsection \<open>Unknown coupons\<close>



subsection \<open>Tax\<close>

text \<open>
  Claim C6. \<open>_calculate_tax\<close> multiplies the amount it is given by the rate of the
  country, or by the rate of \<open>"OTHER"\<close> when the country has no entry, and never fails.
  For a valid invoice \<open>compute_total\<close> calls it on \<open>subtotal - discount\<close>: shipping
  and the fragile fee enter the total only after the tax is computed. Whenever the discount
  is larger than the subtotal the tax is negative, under any rounding that keeps signs.
\<close>

theorem tax_on_discounted_subtotal:
  "(\<exists>other. TAX_RATE R ''OTHER'' = Some other \<and>
      calculate_tax R cntry amount =
        Inr (fmul R amount (case TAX_RATE R cntry of Some rate \<Rightarrow> rate | None \<Rightarrow> other))) \<and>
   (validate (Some invoice) = [] \<and>
    calculate_subtotal R (items invoice) = (subtotal, fragile_fee) \<and>
    calculate_discount R invoice subtotal [] = (discount, ws) \<longrightarrow>
      (\<exists>shipping tax warnings.
         calculate_shipping (country invoice) subtotal = Inr shipping \<and>
         calculate_tax R (country invoice) (fsub R subtotal discount) = Inr tax \<and>
         compute_total R (Some invoice) =
           Inr (max (fsub R (fadd R (fadd R (fadd R subtotal shipping) fragile_fee) tax)
                       discount) 0, warnings))) \<and>
   (float_rounding R \<and> subtotal < discount \<longrightarrow>
      (\<exists>tax. calculate_tax R cntry (fsub R subtotal discount) = Inr tax \<and> tax < 0))"
proof (intro conjI impI)
  show "\<exists>other. TAX_RATE R ''OTHER'' = Some other \<and>
      calculate_tax R cntry amount =
        Inr (fmul R amount (case TAX_RATE R cntry of Some rate \<Rightarrow> rate | None \<Rightarrow> other))"
    by (rule exI [of _ "R (5 / 100)"], rule conjI, rule tax_rate_other, rule calculate_tax_total)
next
  assume a: "validate (Some invoice) = [] \<and>
    calculate_subtotal R (items invoice) = (subtotal, fragile_fee) \<and>
    calculate_discount R invoice subtotal [] = (discount, ws)"
  then have v: "validate (Some invoice) = []" by simp
  show "\<exists>shipping tax warnings.
         calculate_shipping (country invoice) subtotal = Inr shipping \<and>
         calculate_tax R (country invoice) (fsub R subtotal discount) = Inr tax \<and>
         compute_total R (Some invoice) =
           Inr (max (fsub R (fadd R (fadd R (fadd R subtotal shipping) fragile_fee) tax)
                       discount) 0, warnings)"
    using compute_total_valid [OF v, of R] a
    by (simp add: Let_def calculate_shipping_total calculate_tax_total)
next
  assume a: "float_rounding R \<and> subtotal < discount"
  then have fr: "float_rounding R" by simp
  define rate where "rate = (case TAX_RATE R cntry of Some r \<Rightarrow> r | None \<Rightarrow> R (5 / 100))"
  have rate: "0 < rate"
  proof (cases "TAX_RATE R cntry")
    case None
    then show ?thesis using float_rounding_pos [OF fr, of "5 / 100"] by (simp add: rate_def)
  next
    case (Some r)
    then show ?thesis using tax_rate_pos [OF fr Some] by (simp add: rate_def)
  qed
  have "fsub R subtotal discount < 0"
    unfolding fsub_def using a by (intro float_rounding_neg [OF fr]) simp
  then have "fsub R subtotal discount * rate < 0" using rate by (simp add: mult_less_0_iff)
  then have "fmul R (fsub R subtotal discount) rate < 0"
    unfolding fmul_def by (rule float_rounding_neg [OF fr])
  then show "\<exists>tax. calculate_tax R cntry (fsub R subtotal discount) = Inr tax \<and> tax < 0"
    by (simp add: calculate_tax_total rate_def)
qed

theorem tax_on_discounted_subtotal_witness:
  "TAX_RATE binary64 ''OTHER'' = Some (binary64 (5 / 100)) \<and>
   TAX_RATE binary64 ''FR'' = None \<and>
   calculate_tax binary64 ''FR'' 1000 = Inr 50 \<and>
   validate (Some big_order) = [] \<and>
   calculate_subtotal binary64 (items big_order) = (12000, 10) \<and>
   calculate_discount binary64 big_order 12000 [] = (20, [''Unknown coupon'']) \<and>
   calculate_tax binary64 (country big_order) (fsub binary64 12000 20) = Inr (3688201804211815 / 4398046511104) \<and>
   (\<exists>total warnings. compute_total binary64 (Some big_order) = Inr (total, warnings)) \<and>
   float_rounding binary64 \<and> (100 :: rat) < 120 \<and>
   (\<exists>tax. calculate_tax binary64 ''US'' (fsub binary64 100 120) = Inr tax \<and> tax < 0)"
proof -
  have o: "TAX_RATE binary64 ''OTHER'' = Some (binary64 (5 / 100))" by (rule tax_rate_other)
  have f: "TAX_RATE binary64 ''FR'' = None" by (simp add: TAX_RATE_def)
  have e: "fmul binary64 1000 (binary64 (1 / 20)) = 50" by code_simp
  from tax_on_discounted_subtotal [where R = binary64 and cntry = "''FR''" and amount = 1000]
  have 1: "calculate_tax binary64 ''FR'' 1000 = Inr 50"
    by (simp add: o f e)
  have v: "validate (Some big_order) = []" by code_simp
  have s: "calculate_subtotal binary64 (items big_order) = (12000, 10)" by code_simp
  have d: "calculate_discount binary64 big_order 12000 [] = (20, [''Unknown coupon''])"
    by code_simp
  have x: "calculate_tax binary64 (country big_order) (fsub binary64 12000 20) = Inr (3688201804211815 / 4398046511104)"
    by code_simp
  from tax_on_discounted_subtotal
         [where R = binary64 and invoice = big_order and subtotal = 12000 and fragile_fee = 10
            and discount = 20 and ws = "[''Unknown coupon'']"] v s d
  have 2: "\<exists>total warnings. compute_total binary64 (Some big_order) = Inr (total, warnings)"
    by blast
  have lt: "(100 :: rat) < 120" by simp
  from tax_on_discounted_subtotal
         [where R = binary64 and subtotal = 100 and discount = 120 and cntry = "''US''"]
       float_rounding_binary64 lt
  have 3: "\<exists>tax. calculate_tax binary64 ''US'' (fsub binary64 100 120) = Inr tax \<and> tax < 0"
    by blast
  from o f 1 v s d x 2 float_rounding_binary64 lt 3 show ?thesis by blast
qed

subsection \<open>Scenario C\<close>

text \<open>
  Claim C7, as amended. For a valid invoice of country \<open>US\<close>, membership \<open>gold\<close> and
  coupon \<open>WELCOME10\<close> whose items give subtotal 4000 and no fragile fee, the discount is
  520, shipping is 0 and no warning is produced. With the rounding of doubles the tax is
  \<open>278.40000000000003\<close> and the total \<open>3758.3999999999996\<close>, written below as the
  fractions these doubles are; in exact arithmetic the tax is 278.4 and the total 3758.4.
\<close>

theorem scenario_C_total:
  assumes "validate (Some invoice) = []"
    and "country invoice = ''US''" and "membership invoice = ''gold''"
    and "coupon invoice = Some ''WELCOME10''"
  shows "(calculate_subtotal binary64 (items invoice) = (4000, 0) \<longrightarrow>
            calculate_discount binary64 invoice 4000 [] = (520, []) \<and>
            calculate_shipping (country invoice) 4000 = Inr 0 \<and>
            calculate_tax binary64 (country invoice) (fsub binary64 4000 520) =
              Inr (4897664594765415 / 17592186044416) \<and>
            compute_total binary64 (Some invoice) =
              Inr (2066202250916659 / 549755813888, [])) \<and>
         (calculate_subtotal exact (items invoice) = (4000, 0) \<longrightarrow>
            calculate_discount exact invoice 4000 [] = (520, []) \<and>
            calculate_shipping (country invoice) 4000 = Inr 0 \<and>
            calculate_tax exact (country invoice) (fsub exact 4000 520) = Inr (1392 / 5) \<and>
            compute_total exact (Some invoice) = Inr (18792 / 5, []))"
proof (intro conjI impI)
  show sh: "calculate_shipping (country invoice) 4000 = Inr 0"
    by (rule scenario_C_shipping_tax(1) [OF assms(2)])
  then show "calculate_shipping (country invoice) 4000 = Inr 0" .
  show "calculate_discount binary64 invoice 4000 [] = (520, [])"
    by (simp only: scenario_C_discount [OF assms(3,4)] scenario_C_binary64_values)
  show "calculate_discount exact invoice 4000 [] = (520, [])"
    by (simp only: scenario_C_discount [OF assms(3,4)] scenario_C_exact_values)
  show "calculate_tax binary64 (country invoice) (fsub binary64 4000 520) =
      Inr (4897664594765415 / 17592186044416)"
    by (simp only: scenario_C_shipping_tax(2) [OF assms(2)] scenario_C_binary64_values)
  show "calculate_tax exact (country invoice) (fsub exact 4000 520) = Inr (1392 / 5)"
    by (simp only: scenario_C_shipping_tax(2) [OF assms(2)] scenario_C_exact_values)
next
  assume s: "calculate_subtotal binary64 (items invoice) = (4000, 0)"
  show "compute_total binary64 (Some invoice) = Inr (2066202250916659 / 549755813888, [])"
    by (simp only: scenario_C_total_formula [OF assms s] Let_def scenario_C_binary64_values)
next
  assume s: "calculate_subtotal exact (items invoice) = (4000, 0)"
  show "compute_total exact (Some invoice) = Inr (18792 / 5, [])"
    by (simp only: scenario_C_total_formula [OF assms s] Let_def scenario_C_exact_values)
qed

theorem scenario_C_total_witness:
  "validate (Some scenario_C) = [] \<and>
   country scenario_C = ''US'' \<and> membership scenario_C = ''gold'' \<and>
   coupon scenario_C = Some ''WELCOME10'' \<and>
   calculate_subtotal binary64 (items scenario_C) = (4000, 0) \<and>
   calculate_subtotal exact (items scenario_C) = (4000, 0) \<and>
   compute_total binary64 (Some scenario_C) = Inr (2066202250916659 / 549755813888, []) \<and>
   compute_total exact (Some scenario_C) = Inr (18792 / 5, [])"
proof -
  have v: "validate (Some scenario_C) = []" by code_simp
  have c: "country scenario_C = ''US''" by (simp add: scenario_C_def)
  have m: "membership scenario_C = ''gold''" by (simp add: scenario_C_def)
  have k: "coupon scenario_C = Some ''WELCOME10''" by (simp add: scenario_C_def)
  have sb: "calculate_subtotal binary64 (items scenario_C) = (4000, 0)" by code_simp
  have se: "calculate_subtotal exact (items scenario_C) = (4000, 0)" by code_simp
  from scenario_C_total [OF v c m k] sb se
  have "compute_total binary64 (Some scenario_C) = Inr (2066202250916659 / 549755813888, []) \<and>
        compute_total exact (Some scenario_C) = Inr (18792 / 5, [])"
    by blast
  with v c m k sb se show ?thesis by blast
qed

text \<open>
  Claim C7 as stated fails: the total the code returns for Scenario C is neither the number 3758.4 nor the double
  written \<open>3758.4\<close>, and the tax is neither 278.4 nor the double written \<open>278.4\<close>.
\<close>

theorem scenario_C_counterexample:
  "validate (Some scenario_C) = [] \<and>
   calculate_subtotal binary64 (items scenario_C) = (4000, 0) \<and>
   compute_total binary64 (Some scenario_C) = Inr (2066202250916659 / 549755813888, []) \<and>
   (2066202250916659 / 549755813888 :: rat) \<noteq> 18792 / 5 \<and>
   2066202250916659 / 549755813888 \<noteq> binary64 (18792 / 5) \<and>
   calculate_tax binary64 ''US'' (fsub binary64 4000 520) =
     Inr (4897664594765415 / 17592186044416) \<and>
   (4897664594765415 / 17592186044416 :: rat) \<noteq> 1392 / 5 \<and>
   4897664594765415 / 17592186044416 \<noteq> binary64 (1392 / 5)"
proof -
  have v: "validate (Some scenario_C) = []" by code_simp
  have s: "calculate_subtotal binary64 (items scenario_C) = (4000, 0)" by code_simp
  have t: "compute_total binary64 (Some scenario_C) = Inr (2066202250916659 / 549755813888, [])"
    by code_simp
  have n1: "(2066202250916659 / 549755813888 :: rat) \<noteq> 18792 / 5" by simp
  have n2: "2066202250916659 / 549755813888 \<noteq> binary64 (18792 / 5)" by code_simp
  have x: "calculate_tax binary64 ''US'' (fsub binary64 4000 520) =
     Inr (4897664594765415 / 17592186044416)" by code_simp
  have n3: "(4897664594765415 / 17592186044416 :: rat) \<noteq> 1392 / 5" by simp
  have n4: "4897664594765415 / 17592186044416 \<noteq> binary64 (1392 / 5)" by code_simp
  from v s t n1 n2 x n3 n4 show ?thesis by blast
qed

subsection \<open>Subtotal and fragile fee\<close>

text \<open>
  Claim C8, as amended. \<open>_calculate_subtotal\<close> accumulates from left to right: the
  subtotal adds \<open>unit_price * qty\<close> of every item, the fragile fee adds \<open>5.0 * qty\<close> of
  every fragile item, each operation rounded as the float arithmetic rounds it. In exact
  arithmetic the two results are the sums of these products, and they do not change when the
  items are permuted.
\<close>

theorem calculate_subtotal_accumulates:
  "calculate_subtotal R its =
     (foldl (\<lambda>s it. fadd R s (fmul R (unit_price it) (int_to_float R (qty it)))) 0 its,
      foldl (\<lambda>f it. fadd R f (fmul R 5 (int_to_float R (qty it)))) 0 (filter fragile its)) \<and>
   calculate_subtotal exact its =
     (\<Sum>it\<leftarrow>its. unit_price it * of_int (qty it),
      \<Sum>it\<leftarrow>filter fragile its. 5 * of_int (qty it)) \<and>
   (mset its = mset its' \<longrightarrow> calculate_subtotal exact its = calculate_subtotal exact its')"
proof (intro conjI impI)
  show "calculate_subtotal R its =
     (foldl (\<lambda>s it. fadd R s (fmul R (unit_price it) (int_to_float R (qty it)))) 0 its,
      foldl (\<lambda>f it. fadd R f (fmul R 5 (int_to_float R (qty it)))) 0 (filter fragile its))"
    by (simp add: calculate_subtotal_def subtotal_loop_foldl)
  show "calculate_subtotal exact its =
     (\<Sum>it\<leftarrow>its. unit_price it * of_int (qty it),
      \<Sum>it\<leftarrow>filter fragile its. 5 * of_int (qty it))"
    by (simp add: calculate_subtotal_def subtotal_loop_exact)
  assume p: "mset its = mset its'"
  have "(\<Sum>it\<leftarrow>its. unit_price it * of_int (qty it)) =
        (\<Sum>it\<leftarrow>its'. unit_price it * of_int (qty it))"
    using p by (rule sum_list_permuted)
  moreover have "(\<Sum>it\<leftarrow>filter fragile its. 5 * of_int (qty it)) =
        (\<Sum>it\<leftarrow>filter fragile its'. (5::rat) * of_int (qty it))"
    using filter_permuted [OF p] by (rule sum_list_permuted)
  ultimately show "calculate_subtotal exact its = calculate_subtotal exact its'"
    by (simp add: calculate_subtotal_def subtotal_loop_exact)
qed

theorem calculate_subtotal_accumulates_witness:
  "mset items_ascending = mset items_descending \<and>
   calculate_subtotal exact items_ascending = calculate_subtotal exact items_descending \<and>
   calculate_subtotal exact (items big_order) = (12000, 10) \<and>
   calculate_subtotal binary64 (items big_order) = (12000, 10)"
proof -
  have p: "mset items_ascending = mset items_descending"
    by (simp add: items_ascending_def items_descending_def)
  from calculate_subtotal_accumulates [where its = items_ascending and its' = items_descending] p
  have 1: "calculate_subtotal exact items_ascending = calculate_subtotal exact items_descending"
    by blast
  from calculate_subtotal_accumulates
         [where its = "items big_order" and R = exact, THEN conjunct2, THEN conjunct1]
  have 2: "calculate_subtotal exact (items big_order) = (12000, 10)"
    by (simp add: big_order_def)
  have 3: "calculate_subtotal binary64 (items big_order) = (12000, 10)" by code_simp
  from p 1 2 3 show ?thesis by blast
qed

text \<open>
  Claim C8 as stated fails: with the rounding of doubles the order of the items matters: the prices \<open>0.1\<close>,
  \<open>0.2\<close>, \<open>0.3\<close> add up to \<open>0.6000000000000001\<close>, and to \<open>0.6\<close> in the
  opposite order.
\<close>

theorem subtotal_order_counterexample:
  "mset items_ascending = mset items_descending \<and>
   fst (calculate_subtotal binary64 items_ascending) = 1351079888211149 / 2251799813685248 \<and>
   fst (calculate_subtotal binary64 items_descending) = 5404319552844595 / 9007199254740992 \<and>
   calculate_subtotal binary64 items_ascending \<noteq> calculate_subtotal binary64 items_descending"
proof -
  have p: "mset items_ascending = mset items_descending"
    by (simp add: items_ascending_def items_descending_def)
  have a: "fst (calculate_subtotal binary64 items_ascending) = 1351079888211149 / 2251799813685248"
    by code_simp
  have d: "fst (calculate_subtotal binary64 items_descending) = 5404319552844595 / 9007199254740992"
    by code_simp
  have "(1351079888211149 / 2251799813685248 :: rat) \<noteq> 5404319552844595 / 9007199254740992"
    by simp
  with a d have "calculate_subtotal binary64 items_ascending \<noteq> calculate_subtotal binary64 items_descending"
    by metis
  with p a d show ?thesis by blast
qed

subsection \<open>The membership advisory\<close>

text \<open>
  Claim C9. For a valid invoice the returned warnings are those of the discount step (nothing,
  or \<open>Unknown coupon\<close> for a non-empty unrecognised coupon) followed by
  \<open>Consider membership upgrade\<close> exactly when the subtotal is above 10000 and the
  membership is not a key of the membership table. The total is the clamped sum whether or not
  the advisory is added.
\<close>

theorem upgrade_warning_last:
  assumes "validate (Some invoice) = []"
    and "calculate_subtotal R (items invoice) = (subtotal, fragile_fee)"
    and "calculate_discount R invoice subtotal [] = (discount, ws)"
  shows "\<exists>shipping tax.
     calculate_shipping (country invoice) subtotal = Inr shipping \<and>
     calculate_tax R (country invoice) (fsub R subtotal discount) = Inr tax \<and>
     compute_total R (Some invoice) =
       Inr (max (fsub R (fadd R (fadd R (fadd R subtotal shipping) fragile_fee) tax) discount) 0,
            ws @ (if 10000 < subtotal \<and> membership invoice \<notin> dom (MEMBERSHIP_DISCOUNT R)
                  then [''Consider membership upgrade''] else [])) \<and>
     ws = (case coupon invoice of
             None \<Rightarrow> []
           | Some c \<Rightarrow> if c \<noteq> [] \<and> strip c \<notin> dom (coupon_rate R)
                       then [''Unknown coupon''] else [])"
proof -
  have "ws = snd (calculate_discount R invoice subtotal [])" using assms(3) by simp
  then have w: "ws = (case coupon invoice of
             None \<Rightarrow> []
           | Some c \<Rightarrow> if c \<noteq> [] \<and> strip c \<notin> dom (coupon_rate R)
                       then [''Unknown coupon''] else [])"
    by (simp add: calculate_discount_warnings)
  show ?thesis
    using compute_total_valid [OF assms(1), of R] assms(2,3) w
    by (simp add: Let_def calculate_shipping_total calculate_tax_total domIff)
qed

theorem upgrade_warning_last_witness:
  "validate (Some big_order) = [] \<and>
   calculate_subtotal binary64 (items big_order) = (12000, 10) \<and>
   calculate_discount binary64 big_order 12000 [] = (20, [''Unknown coupon'']) \<and>
   membership big_order \<notin> dom (MEMBERSHIP_DISCOUNT binary64) \<and>
   (\<exists>total. compute_total binary64 (Some big_order) =
      Inr (total, [''Unknown coupon'', ''Consider membership upgrade''])) \<and>
   validate (Some scenario_C) = [] \<and>
   calculate_subtotal binary64 (items scenario_C) = (4000, 0) \<and>
   calculate_discount binary64 scenario_C 4000 [] = (520, []) \<and>
   (\<exists>total. compute_total binary64 (Some scenario_C) = Inr (total, []))"
proof -
  have v: "validate (Some big_order) = []" by code_simp
  have s: "calculate_subtotal binary64 (items big_order) = (12000, 10)" by code_simp
  have d: "calculate_discount binary64 big_order 12000 [] = (20, [''Unknown coupon''])"
    by code_simp
  have m: "membership big_order \<notin> dom (MEMBERSHIP_DISCOUNT binary64)"
    by (simp add: big_order_def MEMBERSHIP_DISCOUNT_def)
  have v': "validate (Some scenario_C) = []" by code_simp
  have s': "calculate_subtotal binary64 (items scenario_C) = (4000, 0)" by code_simp
  have d': "calculate_discount binary64 scenario_C 4000 [] = (520, [])" by code_simp
  from upgrade_warning_last [OF v s d] m
  have 1: "\<exists>total. compute_total binary64 (Some big_order) =
      Inr (total, [''Unknown coupon'', ''Consider membership upgrade''])"
    by auto
  from upgrade_warning_last [OF v' s' d']
  have 2: "\<exists>total. compute_total binary64 (Some scenario_C) = Inr (total, [])"
    by auto
  from v s d m 1 v' s' d' 2 show ?thesis by blast
qed

subsection \<open>Empty and blank coupons\<close>

text \<open>
  Claim C10. A coupon that is the empty string behaves as no coupon: the discount step returns
  what it returns for the invoice without coupon and leaves the warnings alone,
  \<open>compute_total\<close> gives the same result as without coupon, and a valid invoice gets no
  \<open>Unknown coupon\<close> warning. A non-empty coupon made of whitespace only adds nothing
  to the discount and appends \<open>Unknown coupon\<close>, which a valid invoice gets back as its
  first warning.
\<close>

theorem empty_coupon_absent_blank_coupon_warns:
  "(coupon invoice = Some [] \<longrightarrow>
      calculate_discount R invoice subtotal warnings =
        calculate_discount R (invoice\<lparr>coupon := None\<rparr>) subtotal warnings \<and>
      snd (calculate_discount R invoice subtotal warnings) = warnings \<and>
      compute_total R (Some invoice) = compute_total R (Some (invoice\<lparr>coupon := None\<rparr>)) \<and>
      (validate (Some invoice) = [] \<longrightarrow>
         (\<exists>total ws. compute_total R (Some invoice) = Inr (total, ws) \<and>
                     ''Unknown coupon'' \<notin> set ws))) \<and>
   (coupon invoice = Some c \<and> c \<noteq> [] \<and> (\<forall>ch\<in>set c. isspace ch) \<longrightarrow>
      calculate_discount R invoice subtotal warnings =
        (fst (calculate_discount R (invoice\<lparr>coupon := None\<rparr>) subtotal warnings),
         warnings @ [''Unknown coupon'']) \<and>
      (validate (Some invoice) = [] \<longrightarrow>
         (\<exists>total rest. compute_total R (Some invoice) = Inr (total, ''Unknown coupon'' # rest))))"
proof (intro conjI impI)
  assume e: "coupon invoice = Some []"
  then have same: "\<And>s ws. calculate_discount R (invoice\<lparr>coupon := None\<rparr>) s ws =
      calculate_discount R invoice s ws"
    using calculate_discount_no_coupon [of invoice R] by blast
  show "calculate_discount R invoice subtotal warnings =
        calculate_discount R (invoice\<lparr>coupon := None\<rparr>) subtotal warnings"
    by (simp add: same)
  show "snd (calculate_discount R invoice subtotal warnings) = warnings"
    using e by (simp add: calculate_discount_warnings)
  show eq: "compute_total R (Some invoice) = compute_total R (Some (invoice\<lparr>coupon := None\<rparr>))"
  proof (cases "validate (Some invoice) = []")
    case True
    then have v': "validate (Some (invoice\<lparr>coupon := None\<rparr>)) = []" by (simp add: validate_coupon)
    show ?thesis
      using compute_total_valid [OF True, of R] compute_total_valid [OF v', of R]
      by (simp add: same)
  next
    case False
    then have "validate (Some (invoice\<lparr>coupon := None\<rparr>)) \<noteq> []" by (simp add: validate_coupon)
    with False show ?thesis by (simp add: compute_total_invalid validate_coupon)
  qed
  assume v: "validate (Some invoice) = []"
  have "snd (calculate_discount R invoice (fst (calculate_subtotal R (items invoice))) []) = []"
    using e by (simp add: calculate_discount_warnings)
  with compute_total_coupon_None [OF v, of R] same
  show "\<exists>total ws. compute_total R (Some invoice) = Inr (total, ws) \<and>
                     ''Unknown coupon'' \<notin> set ws"
    by auto
next
  assume b: "coupon invoice = Some c \<and> c \<noteq> [] \<and> (\<forall>ch\<in>set c. isspace ch)"
  then have none: "coupon_rate R (strip c) = None"
    by (simp add: strip_all_space coupon_rate_empty)
  show d: "calculate_discount R invoice subtotal warnings =
        (fst (calculate_discount R (invoice\<lparr>coupon := None\<rparr>) subtotal warnings),
         warnings @ [''Unknown coupon''])"
    using b none by (simp add: calculate_discount_unknown)
  assume v: "validate (Some invoice) = []"
  have "\<And>s ws. calculate_discount R invoice s ws =
      (fst (calculate_discount R (invoice\<lparr>coupon := None\<rparr>) s ws), ws @ [''Unknown coupon''])"
    using b none by (simp add: calculate_discount_unknown)
  with compute_total_coupon_None [OF v, of R]
  show "\<exists>total rest. compute_total R (Some invoice) = Inr (total, ''Unknown coupon'' # rest)"
    by auto
qed

theorem empty_coupon_absent_blank_coupon_warns_witness:
  "coupon (scenario_C\<lparr>coupon := Some []\<rparr>) = Some [] \<and>
   validate (Some (scenario_C\<lparr>coupon := Some []\<rparr>)) = [] \<and>
   calculate_discount binary64 (scenario_C\<lparr>coupon := Some []\<rparr>) 4000 [] = (120, []) \<and>
   compute_total binary64 (Some (scenario_C\<lparr>coupon := Some []\<rparr>)) =
     compute_total binary64 (Some (scenario_C\<lparr>coupon := None\<rparr>)) \<and>
   isspace CHR '' '' \<and>
   validate (Some (scenario_C\<lparr>coupon := Some ''  ''\<rparr>)) = [] \<and>
   calculate_discount binary64 (scenario_C\<lparr>coupon := Some ''  ''\<rparr>) 4000 [] =
     (120, [''Unknown coupon'']) \<and>
   (\<exists>total rest. compute_total binary64 (Some (scenario_C\<lparr>coupon := Some ''  ''\<rparr>)) =
      Inr (total, ''Unknown coupon'' # rest))"
proof -
  let ?e = "scenario_C\<lparr>coupon := Some []\<rparr>"
  let ?b = "scenario_C\<lparr>coupon := Some ''  ''\<rparr>"
  have ce: "coupon ?e = Some []" by simp
  have cb: "coupon ?b = Some ''  '' \<and> ''  '' \<noteq> [] \<and> (\<forall>ch\<in>set ''  ''. isspace ch)"
    by (simp add: isspace_def)
  have ve: "validate (Some ?e) = []" by code_simp
  have vb: "validate (Some ?b) = []" by code_simp
  have p: "calculate_discount binary64 (scenario_C\<lparr>coupon := None\<rparr>) 4000 [] = (120, [])"
    by code_simp
  have ue: "?e\<lparr>coupon := None\<rparr> = scenario_C\<lparr>coupon := None\<rparr>" by simp
  have ub: "?b\<lparr>coupon := None\<rparr> = scenario_C\<lparr>coupon := None\<rparr>" by simp
  from empty_coupon_absent_blank_coupon_warns
         [where invoice = ?e and R = binary64 and subtotal = 4000 and warnings = "[]"] ce p
  have 1: "calculate_discount binary64 ?e 4000 [] = (120, []) \<and>
           compute_total binary64 (Some ?e) = compute_total binary64 (Some (scenario_C\<lparr>coupon := None\<rparr>))"
    unfolding ue by simp
  from empty_coupon_absent_blank_coupon_warns
         [where invoice = ?b and c = "''  ''" and R = binary64 and subtotal = 4000
            and warnings = "[]"] cb vb p
  have 2: "calculate_discount binary64 ?b 4000 [] = (120, [''Unknown coupon'']) \<and>
     (\<exists>total rest. compute_total binary64 (Some ?b) = Inr (total, ''Unknown coupon'' # rest))"
    unfolding ub by simp
  have sp: "isspace CHR '' ''" by (simp add: isspace_def)
  from ce ve 1 sp vb 2 show ?thesis by blast
qed

end
